theory Spec2Isabelle
  imports Main "HOL-Library.Sublist"
begin

section \<open>JavaScript strings and regular expressions\<close>

text \<open>
  The bot (\<^verbatim>\<open>src/index.ts\<close>) is one event handler built from string
  operations of JavaScript: \<^verbatim>\<open>includes\<close>, \<^verbatim>\<open>RegExp.prototype.test\<close>,
  \<^verbatim>\<open>String.prototype.replace\<close> with a regular expression and a replacement string,
  \<^verbatim>\<open>substr\<close> and \<^verbatim>\<open>length\<close>. A string is a list of characters; \<open>length\<close>
  counts them as JavaScript counts code units. Characters here are the 8-bit
  characters of HOL, so the two line terminators U+2028 and U+2029, which \<^verbatim>\<open>.\<close>
  also refuses, are outside the model.
\<close>

subsection \<open>Characters\<close>

text \<open>
  \<^verbatim>\<open>Canonicalize\<close> of the \<^verbatim>\<open>i\<close> flag (no \<^verbatim>\<open>u\<close> flag): a character is compared
  through its upper case. Every pattern character of the source is an ASCII letter,
  and a character outside ASCII never canonicalizes to an ASCII one, so only the
  ASCII letters are mapped.
\<close>

definition canonicalize :: "bool \<Rightarrow> char \<Rightarrow> char" where
  "canonicalize ignoreCase c =
     (if ignoreCase
      then (case map_of (zip ''abcdefghijklmnopqrstuvwxyz'' ''ABCDEFGHIJKLMNOPQRSTUVWXYZ'') c of
              Some u \<Rightarrow> u
            | None \<Rightarrow> c)
      else c)"

text \<open>The character classes the source uses: \<^verbatim>\<open>.\<close>, \<^verbatim>\<open>\d\<close> and a set \<^verbatim>\<open>[vd]\<close>.\<close>

datatype cclass = Dot | Digit | OneOf string

fun cclass_match :: "bool \<Rightarrow> cclass \<Rightarrow> char \<Rightarrow> bool" where
  "cclass_match ic Dot c = (c \<noteq> CHR 0x0A \<and> c \<noteq> CHR 0x0D)"
| "cclass_match ic Digit c = (c \<in> set ''0123456789'')"
| "cclass_match ic (OneOf cs) c = (canonicalize ic c \<in> set (map (canonicalize ic) cs))"

subsection \<open>Patterns and the backtracking matcher\<close>

text \<open>
  The fragment of the pattern language that the regular expressions of the source
  are written in. \<open>Plus\<close> is the greedy \<^verbatim>\<open>+\<close> and \<open>PlusLazy\<close> the lazy \<^verbatim>\<open>+?\<close>;
  the source applies both to a character class only. \<open>Opt\<close> is the greedy \<^verbatim>\<open>?\<close>,
  \<open>Group\<close> a pair of parentheses (no pattern refers back to a group, and the
  replacement strings used with grouped patterns are empty), \<open>Bol\<close> is \<^verbatim>\<open>^\<close> and
  \<open>Eol\<close> is \<^verbatim>\<open>$\<close> (no \<^verbatim>\<open>m\<close> flag anywhere).
\<close>

datatype regex =
    Lit string
  | Cls cclass
  | Seq regex regex
  | Alt regex regex
  | Opt regex
  | Plus cclass
  | PlusLazy cclass
  | Group regex
  | Bol
  | Eol

primrec cat :: "regex list \<Rightarrow> regex" where
  "cat [] = Lit []"
| "cat (r # rs) = Seq r (cat rs)"

text \<open>Matching the characters of a literal at the front of the input; the rest is returned.\<close>

fun lit :: "bool \<Rightarrow> string \<Rightarrow> string \<Rightarrow> string option" where
  "lit ic [] s = Some s"
| "lit ic (p # ps) [] = None"
| "lit ic (p # ps) (c # cs) =
     (if canonicalize ic p = canonicalize ic c then lit ic ps cs else None)"

text \<open>
  The greedy loop takes another character first and stops second; the lazy loop
  stops first. Each result is the input left after the loop, in the order in which
  the backtracking matcher tries them.
\<close>

fun plus_greedy :: "bool \<Rightarrow> cclass \<Rightarrow> string \<Rightarrow> string list" where
  "plus_greedy ic cl [] = []"
| "plus_greedy ic cl (c # cs) =
     (if cclass_match ic cl c then plus_greedy ic cl cs @ [cs] else [])"

fun plus_lazy :: "bool \<Rightarrow> cclass \<Rightarrow> string \<Rightarrow> string list" where
  "plus_lazy ic cl [] = []"
| "plus_lazy ic cl (c # cs) =
     (if cclass_match ic cl c then cs # plus_lazy ic cl cs else [])"

text \<open>
  \<open>matches ic n r s\<close> lists, in backtracking order, what is left of \<open>s\<close> after each
  way of matching \<open>r\<close> at the front of \<open>s\<close>; \<open>n\<close> is the length of the whole
  input, so that \<open>s\<close> is at its start exactly when it has \<open>n\<close> characters. The match
  that JavaScript reports at this position is the first of the list.
\<close>

fun matches :: "bool \<Rightarrow> nat \<Rightarrow> regex \<Rightarrow> string \<Rightarrow> string list" where
  "matches ic n (Lit p) s = (case lit ic p s of None \<Rightarrow> [] | Some r \<Rightarrow> [r])"
| "matches ic n (Cls cl) s =
     (case s of [] \<Rightarrow> [] | c # cs \<Rightarrow> if cclass_match ic cl c then [cs] else [])"
| "matches ic n (Seq a b) s = concat (map (matches ic n b) (matches ic n a s))"
| "matches ic n (Alt a b) s = matches ic n a s @ matches ic n b s"
| "matches ic n (Opt a) s = matches ic n a s @ [s]"
| "matches ic n (Plus cl) s = plus_greedy ic cl s"
| "matches ic n (PlusLazy cl) s = plus_lazy ic cl s"
| "matches ic n (Group a) s = matches ic n a s"
| "matches ic n Bol s = (if length s = n then [s] else [])"
| "matches ic n Eol s = (if s = [] then [s] else [])"

text \<open>
  The search of \<^verbatim>\<open>RegExpBuiltinExec\<close>: the first position, from the current one on,
  where the pattern matches. The result is the input from the start of the match
  and the input after it.
\<close>

fun search :: "bool \<Rightarrow> nat \<Rightarrow> regex \<Rightarrow> string \<Rightarrow> (string \<times> string) option" where
  "search ic n r [] = (case matches ic n r [] of e # _ \<Rightarrow> Some ([], e) | [] \<Rightarrow> None)"
| "search ic n r (c # cs) =
     (case matches ic n r (c # cs) of e # _ \<Rightarrow> Some (c # cs, e) | [] \<Rightarrow> search ic n r cs)"

subsection \<open>RegExp objects\<close>

text \<open>
  A regular expression object carries \<^verbatim>\<open>lastIndex\<close>, which \<^verbatim>\<open>test\<close> reads and
  writes when the \<^verbatim>\<open>g\<close> flag is set. A literal and \<^verbatim>\<open>new RegExp\<close> make a new
  object with \<^verbatim>\<open>lastIndex = 0\<close>.
\<close>

record regexp =
  source :: regex
  global :: bool
  ignoreCase :: bool
  lastIndex :: nat

definition new_RegExp :: "regex \<Rightarrow> bool \<Rightarrow> bool \<Rightarrow> regexp" where
  "new_RegExp src g i = \<lparr>source = src, global = g, ignoreCase = i, lastIndex = 0\<rparr>"

definition regexp_exec :: "regexp \<Rightarrow> string \<Rightarrow> (nat \<times> nat) option \<times> regexp" where
  "regexp_exec rx s =
     (let li = (if global rx then lastIndex rx else 0);
          failed = (if global rx then rx\<lparr>lastIndex := 0\<rparr> else rx)
      in if li > length s then (None, failed)
         else (case search (ignoreCase rx) (length s) (source rx) (drop li s) of
                 None \<Rightarrow> (None, failed)
               | Some (st, e) \<Rightarrow>
                   (Some (length s - length st, length s - length e),
                    if global rx then rx\<lparr>lastIndex := length s - length e\<rparr> else rx)))"

definition regexp_test :: "regexp \<Rightarrow> string \<Rightarrow> bool \<times> regexp" where
  "regexp_test rx s = (case regexp_exec rx s of (m, rx') \<Rightarrow> (m \<noteq> None, rx'))"

text \<open>\<^verbatim>\<open>rxs.some(v => v.test(s))\<close>: stops at the first object whose test succeeds.\<close>

fun some_test :: "regexp list \<Rightarrow> string \<Rightarrow> bool \<times> regexp list" where
  "some_test [] s = (False, [])"
| "some_test (v # vs) s =
     (case regexp_test v s of
        (True, v') \<Rightarrow> (True, v' # vs)
      | (False, v') \<Rightarrow> (case some_test vs s of (b, vs') \<Rightarrow> (b, v' # vs')))"

subsection \<open>Replacement\<close>

text \<open>
  \<^verbatim>\<open>GetSubstitution\<close>: the replacement string is a template in which \<^verbatim>\<open>$$\<close> is a
  dollar sign, \<^verbatim>\<open>$&\<close> the matched text, \<^verbatim>\<open>$`\<close> the input before the match and
  \<^verbatim>\<open>$'\<close> the input after it. The patterns that the source uses with a non-empty
  replacement have no groups, so \<^verbatim>\<open>$1\<close>, \<^verbatim>\<open>$<\<close> and any other \<^verbatim>\<open>$\<close> stay as
  they are.
\<close>

fun get_substitution :: "string \<Rightarrow> string \<Rightarrow> string \<Rightarrow> string \<Rightarrow> string" where
  "get_substitution matched preceding following [] = []"
| "get_substitution matched preceding following [c] = [c]"
| "get_substitution matched preceding following (c # d # cs) =
     (if c = CHR ''$'' then
        (if d = CHR ''$'' then CHR ''$'' # get_substitution matched preceding following cs
         else if d = CHR ''&'' then matched @ get_substitution matched preceding following cs
         else if d = CHR 0x60 then preceding @ get_substitution matched preceding following cs
         else if d = CHR 0x27 then following @ get_substitution matched preceding following cs
         else c # get_substitution matched preceding following (d # cs))
      else c # get_substitution matched preceding following (d # cs))"

text \<open>
  \<^verbatim>\<open>s.replace(rx, replacement)\<close> for a pattern with the \<^verbatim>\<open>g\<close> flag, as all the
  source's are: \<^verbatim>\<open>lastIndex\<close> is reset, every match from left to right is
  replaced, and after an empty match the search moves on by one character. \<open>inp\<close>
  is the whole input, \<open>n\<close> its length and \<open>rest\<close> the input from
  \<^verbatim>\<open>lastIndex\<close> on.
\<close>

function replace_from ::
  "bool \<Rightarrow> regex \<Rightarrow> string \<Rightarrow> string \<Rightarrow> nat \<Rightarrow> string \<Rightarrow> string" where
  "replace_from ic r replacement inp n rest =
     (case matches ic n r rest of
        [] \<Rightarrow> (case rest of [] \<Rightarrow> [] | c # cs \<Rightarrow> c # replace_from ic r replacement inp n cs)
      | e # _ \<Rightarrow>
          (let sub = get_substitution (take (length rest - length e) rest)
                       (take (n - length rest) inp) e replacement
           in if length e < length rest then sub @ replace_from ic r replacement inp n e
              else (case rest of [] \<Rightarrow> sub
                    | c # cs \<Rightarrow> sub @ c # replace_from ic r replacement inp n cs)))"
  by pat_completeness auto
termination
  by (relation "measure (\<lambda>(ic, r, replacement, inp, n, rest). length rest)") auto

declare replace_from.simps [simp del]

definition replace :: "string \<Rightarrow> regexp \<Rightarrow> string \<Rightarrow> string" where
  "replace s rx replacement =
     replace_from (ignoreCase rx) (source rx) replacement s (length s) s"

text \<open>\<^verbatim>\<open>s.includes(t)\<close>.\<close>

fun str_includes :: "string \<Rightarrow> string \<Rightarrow> bool" where
  "str_includes [] t = (t = [])"
| "str_includes (c # cs) t = (lit False t (c # cs) \<noteq> None \<or> str_includes cs t)"

text \<open>\<^verbatim>\<open>s.substr(0, n)\<close>: nothing when \<open>n\<close> is zero or negative.\<close>

definition substr0 :: "string \<Rightarrow> int \<Rightarrow> string" where
  "substr0 s n = (if n \<le> 0 then [] else take (nat n) s)"

text \<open>The decimal digits of a number, as a template literal prints it.\<close>

fun decimal :: "nat \<Rightarrow> string" where
  "decimal n =
     (if n < 10 then [''0123456789'' ! n]
      else decimal (n div 10) @ [''0123456789'' ! (n mod 10)])"

section \<open>The bot\<close>

subsection \<open>Templates\<close>

definition TWEET_URL :: string where
  \<open>TWEET_URL = ''https://en.wikipedia.org/wiki/Special:Diff/{{{diff}}}''\<close>

definition TWEET_TEXT :: string where
  \<open>TWEET_TEXT = ''New revert by {{{user}}} on "{{{title}}}": "{{{summary}}}" '' @ TWEET_URL\<close>

definition TWEET_TEXT_EMPTY :: string where
  \<open>TWEET_TEXT_EMPTY = ''New revert by {{{user}}} on "{{{title}}}" with no given reason. '' @ TWEET_URL\<close>

subsection \<open>Events\<close>

text \<open>
  A \<^verbatim>\<open>mediawiki.recentchange\<close> event as the handler reads it. The event is a
  JSON object from the network, so a field may be missing: \<open>None\<close> is
  \<^verbatim>\<open>undefined\<close>. Reading a property of \<^verbatim>\<open>undefined\<close> raises a
  \<^verbatim>\<open>TypeError\<close>; putting \<^verbatim>\<open>undefined\<close> into a string gives the text
  \<^verbatim>\<open>undefined\<close>. Fields of other types than the declared ones are not modelled.
\<close>

record revision =
  new :: "nat option"

record change =
  wiki :: "string option"
  type :: "string option"
  title :: "string option"
  user :: "string option"
  comment :: "string option"
  parsedcomment :: "string option"
  revision :: "revision option"

datatype error = TypeError | LoadError

definition to_string :: "string option \<Rightarrow> string" where
  "to_string v = (case v of None \<Rightarrow> ''undefined'' | Some s \<Rightarrow> s)"

definition number_to_string :: "nat option \<Rightarrow> string" where
  "number_to_string v = (case v of None \<Rightarrow> ''undefined'' | Some n \<Rightarrow> decimal n)"

subsection \<open>The patterns of the handler\<close>

text \<open>\<^verbatim>\<open>/rv[vd]|vand(alism)?/gi\<close>\<close>

definition vandalism :: regexp where
  "vandalism = new_RegExp
     (Alt (Seq (Lit ''rv'') (Cls (OneOf ''vd'')))
          (Seq (Lit ''vand'') (Opt (Group (Lit ''alism'')))))
     True True"

text \<open>
  The array \<^verbatim>\<open>signatures\<close>, in the order of the source: Rollback, Undo, RedWarn,
  Twinkle. In the last one \<^verbatim>\<open>(talk)\<close> is written without backslashes: a group
  around the four letters.
\<close>

definition rollback :: regex where
  "rollback = cat [Bol, Lit ''Reverted '', Plus Digit, Lit '' edit'', Opt (Lit ''s''),
     Lit '' by '', PlusLazy Dot, Lit '' (talk) to last version by '', PlusLazy Dot,
     Lit '' (talk)'']"

definition undo :: regex where
  "undo = cat [Bol, Lit ''Undid revision '', PlusLazy Dot, Lit '' by '', PlusLazy Dot,
     Lit '' (talk)'', Opt (Lit '' '')]"

definition redwarn :: regex where
  "redwarn = cat [Bol, Lit ''Reverting edit(s) by '', Plus Dot, Lit '' to rev'', Cls Dot,
     Lit '' '', Plus Dot, Lit '' '', Plus Digit, Lit '' by '', PlusLazy Dot,
     Opt (Group (Seq (Lit '':'') (Opt (Lit '' ''))))]"

definition twinkle :: regex where
  "twinkle = cat [Bol, Lit ''Reverted '', Plus Digit, Lit '' edit'', Opt (Lit ''s''),
     Lit '' by '', Plus Dot, Lit '' '', Group (Lit ''talk''),
     Group (Alt (Seq (Lit '':'') (Opt (Lit '' ''))) Eol)]"

definition signatures :: "regexp list" where
  "signatures = map (\<lambda>r. new_RegExp r True False) [rollback, undo, redwarn, twinkle]"

text \<open>\<^verbatim>\<open>/ ?\(talk\)/g\<close>\<close>

definition talk_links :: regexp where
  "talk_links = new_RegExp (cat [Opt (Lit '' ''), Lit ''(talk)'']) True False"

text \<open>The placeholders of the templates, and \<^verbatim>\<open>/https:.+$/g\<close>.\<close>

definition placeholder :: "string \<Rightarrow> regexp" where
  "placeholder name = new_RegExp (Lit (''{{{'' @ name @ ''}}}'')) True False"

definition https_to_end :: regexp where
  "https_to_end = new_RegExp (cat [Lit ''https:'', Plus Dot, Eol]) True False"

subsection \<open>Stripping the summary\<close>

text \<open>
  Lines 95 to 102: every signature is removed in turn, each through a new object
  made from the \<^verbatim>\<open>source\<close> and \<^verbatim>\<open>flags\<close> of the one in the array, and then the
  talk links are removed. The specification calls this \<^verbatim>\<open>stripAll\<close>.
\<close>

definition strippedSummary :: "regexp list \<Rightarrow> string \<Rightarrow> string" where
  "strippedSummary sigs summary =
     replace
       (foldl (\<lambda>s sig. replace s (new_RegExp (source sig) (global sig) (ignoreCase sig)) [])
          summary sigs)
       talk_links []"

subsection \<open>Classification\<close>

datatype classification =
    NotQualifying
  | Qualifying (editorName: "string option") (pageTitle: string)
      (revisionId: "nat option") (reason: string)

text \<open>
  Lines 68 to 106 of the handler. \<open>root_text\<close> stands for
  \<^verbatim>\<open>cheerio.load(change.parsedcomment).root().text()\<close>, which is the library's:
  the text of the rendered comment, or an error raised in the library.
  \<open>this_pages\<close> is \<^verbatim>\<open>this.pages\<close>.
\<close>

definition pages_includes :: "string list \<Rightarrow> string option \<Rightarrow> bool" where
  "pages_includes this_pages t = (case t of None \<Rightarrow> False | Some s \<Rightarrow> s \<in> set this_pages)"

definition classify ::
  "(string option \<Rightarrow> error + string) \<Rightarrow> string list \<Rightarrow> change \<Rightarrow> error + classification" where
  "classify root_text this_pages ev =
     (if wiki ev \<noteq> Some ''enwiki'' \<or> type ev \<noteq> Some ''edit'' then Inr NotQualifying
      else if \<not> pages_includes this_pages (title ev) then Inr NotQualifying
      else (case comment ev of
              None \<Rightarrow> Inl TypeError
            | Some c \<Rightarrow>
                if str_includes c ''([[WP:HG|HG]])'' \<or> user ev = Some ''ClueBot NG''
                then Inr NotQualifying
                else if fst (regexp_test vandalism c) then Inr NotQualifying
                else (case root_text (parsedcomment ev) of
                        Inl e \<Rightarrow> Inl e
                      | Inr summary \<Rightarrow>
                          (case some_test signatures summary of
                             (False, _) \<Rightarrow> Inr NotQualifying
                           | (True, sigs) \<Rightarrow>
                               (case revision ev of
                                  None \<Rightarrow> Inl TypeError
                                | Some rv \<Rightarrow>
                                    Inr (Qualifying (user ev) (to_string (title ev)) (new rv)
                                           (strippedSummary sigs summary)))))))"

subsection \<open>Formatting\<close>

text \<open>Lines 108 to 129: the text handed to \<^verbatim>\<open>twitter.v1.tweet\<close>.\<close>

definition nonSummaryLength :: "string option \<Rightarrow> string \<Rightarrow> int" where
  "nonSummaryLength u t =
     280 - int (length
       (replace
          (replace
             (replace
                (replace TWEET_TEXT (placeholder ''user'') (to_string u))
                (placeholder ''title'') t)
             (placeholder ''summary'') [])
          https_to_end (replicate 24 CHR ''-'')))"

definition format :: "string option \<Rightarrow> string \<Rightarrow> nat option \<Rightarrow> string \<Rightarrow> string" where
  "format u t diff stripped =
     (if length stripped > 0 then
        replace
          (replace
             (replace
                (replace TWEET_TEXT (placeholder ''user'') (to_string u))
                (placeholder ''title'') t)
             (placeholder ''summary'') (substr0 stripped (nonSummaryLength u t)))
          (placeholder ''diff'') (number_to_string diff)
      else
        replace
          (replace
             (replace TWEET_TEXT_EMPTY (placeholder ''user'') (to_string u))
             (placeholder ''title'') t)
          (placeholder ''diff'') (number_to_string diff))"

subsection \<open>The handler\<close>

text \<open>
  The state of the bot that the handler can see: the monitored pages, and the texts
  handed to the publisher so far. An error leaves the handler as an exception:
  there is no \<^verbatim>\<open>try\<close> in it.
\<close>

record bot =
  pages :: "string list"
  tweets :: "string list"

definition recentchange ::
  "(string option \<Rightarrow> error + string) \<Rightarrow> bot \<Rightarrow> change \<Rightarrow> error + bot" where
  "recentchange root_text this ev =
     (case classify root_text (pages this) ev of
        Inl e \<Rightarrow> Inl e
      | Inr NotQualifying \<Rightarrow> Inr this
      | Inr (Qualifying u t diff stripped) \<Rightarrow>
          Inr (this\<lparr>tweets := tweets this @ [format u t diff stripped]\<rparr>))"

subsection \<open>The objects of the handler in a store\<close>

text \<open>
  A regular expression literal makes a new object each time it is evaluated, and
  so does \<^verbatim>\<open>new RegExp\<close>; \<^verbatim>\<open>test\<close> and \<^verbatim>\<open>replace\<close> write the
  \<^verbatim>\<open>lastIndex\<close> of the object they are called on. To see what one call of the
  handler can leave for the next one, the handler is written once more with its
  objects in a store: a list of objects in which an address is an index. The
  store is handed from call to call. Addresses are made by \<open>alloc\<close> only, so a
  read at an address is a read of an object that is there.
\<close>

type_synonym store = "regexp list"

definition alloc :: "store \<Rightarrow> regexp \<Rightarrow> nat \<times> store" where
  "alloc h rx = (length h, h @ [rx])"

fun alloc_all :: "store \<Rightarrow> regexp list \<Rightarrow> nat list \<times> store" where
  "alloc_all h [] = ([], h)"
| "alloc_all h (rx # rxs) =
     (case alloc h rx of (a, h1) \<Rightarrow>
        (case alloc_all h1 rxs of (as, h2) \<Rightarrow> (a # as, h2)))"

text \<open>\<^verbatim>\<open>rx.test(s)\<close> and \<^verbatim>\<open>s.replace(rx, replacement)\<close> on the object at an address.\<close>

definition test_at :: "store \<Rightarrow> nat \<Rightarrow> string \<Rightarrow> bool \<times> store" where
  "test_at h a s = (case regexp_test (h ! a) s of (b, rx') \<Rightarrow> (b, h[a := rx']))"

definition replace_at :: "store \<Rightarrow> string \<Rightarrow> nat \<Rightarrow> string \<Rightarrow> string \<times> store" where
  "replace_at h s a replacement =
     (replace s (h ! a) replacement, h[a := (h ! a)\<lparr>lastIndex := 0\<rparr>])"

text \<open>\<^verbatim>\<open>signatures.some(v => v.test(summary))\<close> over the addresses in the array.\<close>

fun some_at :: "store \<Rightarrow> nat list \<Rightarrow> string \<Rightarrow> bool \<times> store" where
  "some_at h [] s = (False, h)"
| "some_at h (a # as) s =
     (case test_at h a s of
        (True, h') \<Rightarrow> (True, h')
      | (False, h') \<Rightarrow> some_at h' as s)"

text \<open>
  The loop of lines 96 to 99: a new object from the \<^verbatim>\<open>source\<close> and the \<^verbatim>\<open>flags\<close>
  of each signature, and the replacement with it.
\<close>

fun strip_at :: "store \<Rightarrow> nat list \<Rightarrow> string \<Rightarrow> string \<times> store" where
  "strip_at h [] s = (s, h)"
| "strip_at h (sig # sigs) s =
     (case alloc h (new_RegExp (source (h ! sig)) (global (h ! sig)) (ignoreCase (h ! sig))) of
        (a, h1) \<Rightarrow>
          (case replace_at h1 s a [] of (s', h2) \<Rightarrow> strip_at h2 sigs s'))"

text \<open>Lines 68 to 106 with the objects in the store.\<close>

definition classify_at ::
  "(string option \<Rightarrow> error + string) \<Rightarrow> string list \<Rightarrow> store \<Rightarrow> change
     \<Rightarrow> (error + classification) \<times> store" where
  "classify_at root_text this_pages h ev =
     (if wiki ev \<noteq> Some ''enwiki'' \<or> type ev \<noteq> Some ''edit'' then (Inr NotQualifying, h)
      else if \<not> pages_includes this_pages (title ev) then (Inr NotQualifying, h)
      else (case comment ev of
              None \<Rightarrow> (Inl TypeError, h)
            | Some c \<Rightarrow>
                if str_includes c ''([[WP:HG|HG]])'' \<or> user ev = Some ''ClueBot NG''
                then (Inr NotQualifying, h)
                else (case alloc h vandalism of (v, h1) \<Rightarrow>
                  (case test_at h1 v c of
                     (True, h2) \<Rightarrow> (Inr NotQualifying, h2)
                   | (False, h2) \<Rightarrow>
                       (case root_text (parsedcomment ev) of
                          Inl e \<Rightarrow> (Inl e, h2)
                        | Inr summary \<Rightarrow>
                            (case alloc_all h2 signatures of (sigs, h3) \<Rightarrow>
                               (case some_at h3 sigs summary of
                                  (False, h4) \<Rightarrow> (Inr NotQualifying, h4)
                                | (True, h4) \<Rightarrow>
                                    (case strip_at h4 sigs summary of (s1, h5) \<Rightarrow>
                                       (case alloc h5 talk_links of (t, h6) \<Rightarrow>
                                          (case replace_at h6 s1 t [] of (stripped, h7) \<Rightarrow>
                                             (case revision ev of
                                                None \<Rightarrow> (Inl TypeError, h7)
                                              | Some rv \<Rightarrow>
                                                  (Inr (Qualifying (user ev) (to_string (title ev))
                                                          (new rv) stripped), h7))))))))))))"

text \<open>\<^verbatim>\<open>s.replace(/.../g, replacement)\<close>: the literal is evaluated, then the replacement is made.\<close>

definition replace_literal :: "store \<Rightarrow> string \<Rightarrow> regexp \<Rightarrow> string \<Rightarrow> string \<times> store" where
  "replace_literal h s rx replacement =
     (case alloc h rx of (a, h1) \<Rightarrow> replace_at h1 s a replacement)"

text \<open>Lines 108 to 129 with the objects in the store.\<close>

definition nonSummaryLength_at :: "store \<Rightarrow> string option \<Rightarrow> string \<Rightarrow> int \<times> store" where
  "nonSummaryLength_at h u t =
     (case replace_literal h TWEET_TEXT (placeholder ''user'') (to_string u) of (s1, h1) \<Rightarrow>
     (case replace_literal h1 s1 (placeholder ''title'') t of (s2, h2) \<Rightarrow>
     (case replace_literal h2 s2 (placeholder ''summary'') [] of (s3, h3) \<Rightarrow>
     (case replace_literal h3 s3 https_to_end (replicate 24 CHR ''-'') of (s4, h4) \<Rightarrow>
        (280 - int (length s4), h4)))))"

definition format_at ::
  "store \<Rightarrow> string option \<Rightarrow> string \<Rightarrow> nat option \<Rightarrow> string \<Rightarrow> string \<times> store" where
  "format_at h u t diff stripped =
     (if length stripped > 0 then
        (case nonSummaryLength_at h u t of (n, h0) \<Rightarrow>
        (case replace_literal h0 TWEET_TEXT (placeholder ''user'') (to_string u) of (s1, h1) \<Rightarrow>
        (case replace_literal h1 s1 (placeholder ''title'') t of (s2, h2) \<Rightarrow>
        (case replace_literal h2 s2 (placeholder ''summary'') (substr0 stripped n) of (s3, h3) \<Rightarrow>
           replace_literal h3 s3 (placeholder ''diff'') (number_to_string diff)))))
      else
        (case replace_literal h TWEET_TEXT_EMPTY (placeholder ''user'') (to_string u) of (s1, h1) \<Rightarrow>
        (case replace_literal h1 s1 (placeholder ''title'') t of (s2, h2) \<Rightarrow>
           replace_literal h2 s2 (placeholder ''diff'') (number_to_string diff))))"

text \<open>The state of the bot with the store, and the handler on it.\<close>

record world = bot +
  objects :: store

definition recentchange_at ::
  "(string option \<Rightarrow> error + string) \<Rightarrow> world \<Rightarrow> change \<Rightarrow> error option \<times> world" where
  "recentchange_at root_text this ev =
     (case classify_at root_text (pages this) (objects this) ev of
        (Inl e, h) \<Rightarrow> (Some e, this\<lparr>objects := h\<rparr>)
      | (Inr NotQualifying, h) \<Rightarrow> (None, this\<lparr>objects := h\<rparr>)
      | (Inr (Qualifying u t diff stripped), h) \<Rightarrow>
          (case format_at h u t diff stripped of
             (text, h') \<Rightarrow> (None, this\<lparr>tweets := tweets this @ [text], objects := h'\<rparr>)))"

section \<open>Example inputs\<close>

text \<open>
  A rendered comment without markup is its own text; a missing one is refused by
  the library.
\<close>

definition plain_text :: "string option \<Rightarrow> error + string" where
  "plain_text p = (case p of None \<Rightarrow> Inl LoadError | Some s \<Rightarrow> Inr s)"

definition example_change :: "string \<Rightarrow> change" where
  "example_change c =
     \<lparr>wiki = Some ''enwiki'', type = Some ''edit'', title = Some ''Hurricane Ida'',
      user = Some ''Alice'', comment = Some c, parsedcomment = Some c,
      revision = Some \<lparr>new = Some 12345\<rparr>\<rparr>"

definition example_bot :: bot where
  "example_bot = \<lparr>pages = [''Hurricane Katrina'', ''Hurricane Ida''], tweets = []\<rparr>"

definition example_world :: world where
  "example_world =
     \<lparr>pages = [''Hurricane Katrina'', ''Hurricane Ida''], tweets = [], objects = []\<rparr>"

definition undo_comment :: string where
  "undo_comment = ''Undid revision 12345 by Foo (talk)''"

definition rollback_comment :: string where
  "rollback_comment =
     ''Reverted 1 edit by Foo (talk) to last version by Bar (talk): unsourced claim''"

section \<open>Properties\<close>

lemma canonicalize_False [simp]: "canonicalize False c = c"
  by (simp add: canonicalize_def)

lemmas rx_defs = vandalism_def signatures_def rollback_def undo_def redwarn_def twinkle_def
  talk_links_def placeholder_def https_to_end_def new_RegExp_def regexp_test_def
  regexp_exec_def replace_def canonicalize_def replace_from.simps

subsection \<open>The objects in \<^verbatim>\<open>signatures\<close> after \<^verbatim>\<open>some\<close>\<close>

text \<open>
  \<^verbatim>\<open>test\<close> moves \<^verbatim>\<open>lastIndex\<close> only; the strip makes its objects from
  \<^verbatim>\<open>source\<close> and \<^verbatim>\<open>flags\<close>, so it does not see what \<^verbatim>\<open>some\<close> did.
\<close>

lemma regexp_test_fields:
  "source (snd (regexp_test v s)) = source v \<and> global (snd (regexp_test v s)) = global v
   \<and> ignoreCase (snd (regexp_test v s)) = ignoreCase v"
  by (simp add: regexp_test_def regexp_exec_def Let_def split: prod.splits option.splits)

lemma some_test_fields:
  "map (\<lambda>r. (source r, global r, ignoreCase r)) (snd (some_test sigs s)) =
   map (\<lambda>r. (source r, global r, ignoreCase r)) sigs"
proof (induction sigs)
  case Nil
  show ?case by simp
next
  case (Cons v vs)
  obtain b v' where t: "regexp_test v s = (b, v')" by (cases "regexp_test v s")
  with regexp_test_fields [of v s]
  have v': "source v' = source v" "global v' = global v" "ignoreCase v' = ignoreCase v"
    by simp_all
  obtain b2 vs' where t2: "some_test vs s = (b2, vs')" by (cases "some_test vs s")
  with Cons t v' show ?case by (cases b) simp_all
qed

lemma strippedSummary_fields:
  assumes "map (\<lambda>r. (source r, global r, ignoreCase r)) sigs' =
           map (\<lambda>r. (source r, global r, ignoreCase r)) sigs"
  shows "strippedSummary sigs' summary = strippedSummary sigs summary"
proof -
  have *: "foldl (\<lambda>s sig. replace s (new_RegExp (source sig) (global sig) (ignoreCase sig)) []) s sigs =
        foldl (\<lambda>s (a, b, c). replace s (new_RegExp a b c) []) s
          (map (\<lambda>r. (source r, global r, ignoreCase r)) sigs)" for s sigs
    by (induction sigs arbitrary: s) auto
  show ?thesis unfolding strippedSummary_def * assms ..
qed

lemma strippedSummary_some_test:
  "strippedSummary (snd (some_test sigs s)) summary = strippedSummary sigs summary"
  by (rule strippedSummary_fields) (rule some_test_fields)

subsection \<open>What is left of the handler once the filters are passed\<close>

lemma classify_passed:
  assumes "wiki ev = Some ''enwiki''" and "type ev = Some ''edit''"
    and "title ev = Some t" and "t \<in> set this_pages"
    and "comment ev = Some c" and "\<not> str_includes c ''([[WP:HG|HG]])''"
    and "user ev \<noteq> Some ''ClueBot NG''" and "\<not> fst (regexp_test vandalism c)"
    and "root_text (parsedcomment ev) = Inr summary"
  shows "classify root_text this_pages ev =
     (if fst (some_test signatures summary)
      then (case revision ev of
              None \<Rightarrow> Inl TypeError
            | Some rv \<Rightarrow> Inr (Qualifying (user ev) t (new rv) (strippedSummary signatures summary)))
      else Inr NotQualifying)"
proof (cases "some_test signatures summary")
  case (Pair b sigs)
  then have "strippedSummary sigs summary = strippedSummary signatures summary"
    using strippedSummary_some_test [of signatures summary summary] by simp
  with Pair assms show ?thesis
    by (simp add: classify_def pages_includes_def to_string_def split: option.splits bool.splits)
qed

subsection \<open>The filters\<close>

text \<open>
  C8. An event whose type is not \<^verbatim>\<open>edit\<close>, or whose wiki is not \<^verbatim>\<open>enwiki\<close>, or
  whose title is not one of the monitored pages, is classified \<open>NotQualifying\<close>,
  whatever its comment is, also when the comment is missing.
\<close>

theorem classify_filters:
  assumes "type ev \<noteq> Some ''edit'' \<or> wiki ev \<noteq> Some ''enwiki''
           \<or> title ev \<notin> Some ` set this_pages"
  shows "classify root_text this_pages ev = Inr NotQualifying"
  using assms by (auto simp: classify_def pages_includes_def split: option.splits)

theorem classify_filters_witness:
  "classify plain_text (pages example_bot) ((example_change undo_comment)\<lparr>type := Some ''log''\<rparr>)
     = Inr NotQualifying
   \<and> classify plain_text (pages example_bot) ((example_change undo_comment)\<lparr>wiki := Some ''dewiki''\<rparr>)
     = Inr NotQualifying
   \<and> classify plain_text (pages example_bot) ((example_change undo_comment)\<lparr>title := Some ''Hurricane''\<rparr>)
     = Inr NotQualifying"
  using classify_filters [of "(example_change undo_comment)\<lparr>type := Some ''log''\<rparr>"
      "pages example_bot" plain_text]
    classify_filters [of "(example_change undo_comment)\<lparr>wiki := Some ''dewiki''\<rparr>"
      "pages example_bot" plain_text]
    classify_filters [of "(example_change undo_comment)\<lparr>title := Some ''Hurricane''\<rparr>"
      "pages example_bot" plain_text]
  by (simp add: example_change_def example_bot_def)

text \<open>
  C7. An event with a comment that contains the marker \<^verbatim>\<open>([[WP:HG|HG]])\<close>, or with
  a comment and the editor \<^verbatim>\<open>ClueBot NG\<close>, is classified \<open>NotQualifying\<close>, whatever
  the rendered comment matches.
\<close>

theorem classify_exempt:
  assumes "comment ev = Some c"
    and "str_includes c ''([[WP:HG|HG]])'' \<or> user ev = Some ''ClueBot NG''"
  shows "classify root_text this_pages ev = Inr NotQualifying"
  using assms by (auto simp: classify_def)

theorem classify_exempt_witness:
  "classify plain_text (pages example_bot)
     (example_change ''Reverted 1 edit by Foo (talk) to last version by Bar (talk) ([[WP:HG|HG]])'')
     = Inr NotQualifying
   \<and> classify plain_text (pages example_bot)
     ((example_change undo_comment)\<lparr>user := Some ''ClueBot NG''\<rparr>) = Inr NotQualifying"
  using classify_exempt [of
      "example_change ''Reverted 1 edit by Foo (talk) to last version by Bar (talk) ([[WP:HG|HG]])''"
      "''Reverted 1 edit by Foo (talk) to last version by Bar (talk) ([[WP:HG|HG]])''"
      plain_text "pages example_bot"]
    classify_exempt [of "(example_change undo_comment)\<lparr>user := Some ''ClueBot NG''\<rparr>"
      undo_comment plain_text "pages example_bot"]
  by (simp add: example_change_def)

subsection \<open>Two comments through the handler\<close>

lemma undo_not_vandalism: "\<not> fst (regexp_test vandalism undo_comment)"
  by (simp add: rx_defs undo_comment_def)

lemma undo_no_marker: "\<not> str_includes undo_comment ''([[WP:HG|HG]])''"
  by (simp add: undo_comment_def)

lemma undo_matched: "fst (some_test signatures undo_comment)"
  by (simp add: rx_defs undo_comment_def)

lemma undo_stripped: "strippedSummary signatures undo_comment = []"
  by (simp add: rx_defs strippedSummary_def undo_comment_def)

lemma rollback_no_marker: "\<not> str_includes rollback_comment ''([[WP:HG|HG]])''"
  by (simp add: rollback_comment_def)

lemma rollback_not_vandalism: "\<not> fst (regexp_test vandalism rollback_comment)"
  by (simp add: rx_defs rollback_comment_def)

lemma rollback_matched: "fst (some_test signatures rollback_comment)"
  by (simp add: rx_defs rollback_comment_def)

lemma rollback_stripped: "strippedSummary signatures rollback_comment = '': unsourced claim''"
  by (simp add: rx_defs strippedSummary_def rollback_comment_def)

lemma classify_undo:
  assumes "wiki ev = Some ''enwiki''" and "type ev = Some ''edit''"
    and "title ev = Some t" and "t \<in> set this_pages"
    and "user ev \<noteq> Some ''ClueBot NG''"
    and "comment ev = Some undo_comment"
    and "root_text (parsedcomment ev) = Inr undo_comment"
    and "revision ev = Some rv"
  shows "classify root_text this_pages ev = Inr (Qualifying (user ev) t (new rv) [])"
  using classify_passed [of ev t this_pages undo_comment root_text undo_comment]
    assms undo_no_marker undo_not_vandalism undo_matched undo_stripped
  by simp

lemma classify_rollback:
  assumes "wiki ev = Some ''enwiki''" and "type ev = Some ''edit''"
    and "title ev = Some t" and "t \<in> set this_pages"
    and "user ev \<noteq> Some ''ClueBot NG''"
    and "comment ev = Some rollback_comment"
    and "root_text (parsedcomment ev) = Inr rollback_comment"
    and "revision ev = Some rv"
  shows "classify root_text this_pages ev =
    Inr (Qualifying (user ev) t (new rv) '': unsourced claim'')"
  using classify_passed [of ev t this_pages rollback_comment root_text rollback_comment]
    assms rollback_no_marker rollback_not_vandalism rollback_matched rollback_stripped
  by simp

text \<open>
  C6. An event that passes the filters, with the comment and the rendered text
  \<^verbatim>\<open>Undid revision 12345 by Foo (talk)\<close>, is classified \<open>Qualifying\<close> with the
  empty reason, and its text is made from \<open>TWEET_TEXT_EMPTY\<close>, the template
  without a quoted reason.
\<close>

theorem undo_without_reason:
  assumes "wiki ev = Some ''enwiki''" and "type ev = Some ''edit''"
    and "title ev = Some t" and "t \<in> set this_pages"
    and "user ev \<noteq> Some ''ClueBot NG''"
    and "comment ev = Some ''Undid revision 12345 by Foo (talk)''"
    and "root_text (parsedcomment ev) = Inr ''Undid revision 12345 by Foo (talk)''"
    and "revision ev = Some rv"
  shows "classify root_text this_pages ev = Inr (Qualifying (user ev) t (new rv) [])
     \<and> format (user ev) t (new rv) [] =
         replace
           (replace
              (replace TWEET_TEXT_EMPTY (placeholder ''user'') (to_string (user ev)))
              (placeholder ''title'') t)
           (placeholder ''diff'') (number_to_string (new rv))"
  using classify_undo [of ev t this_pages root_text rv] assms
  by (simp add: format_def undo_comment_def)

lemma example_undo_text:
  "replace
     (replace
        (replace TWEET_TEXT_EMPTY (placeholder ''user'') ''Alice'')
        (placeholder ''title'') ''Hurricane Ida'')
     (placeholder ''diff'') ''12345'' =
   ''New revert by Alice on \"Hurricane Ida\" with no given reason. https://en.wikipedia.org/wiki/Special:Diff/12345''"
  by (simp add: rx_defs TWEET_TEXT_EMPTY_def TWEET_URL_def)

lemma decimal_12345: "decimal 12345 = ''12345''"
  by simp

theorem undo_without_reason_witness:
  "classify plain_text (pages example_bot) (example_change ''Undid revision 12345 by Foo (talk)'')
     = Inr (Qualifying (Some ''Alice'') ''Hurricane Ida'' (Some 12345) [])
   \<and> format (Some ''Alice'') ''Hurricane Ida'' (Some 12345) [] =
     ''New revert by Alice on \"Hurricane Ida\" with no given reason. https://en.wikipedia.org/wiki/Special:Diff/12345''"
  using undo_without_reason [of "example_change ''Undid revision 12345 by Foo (talk)''"
      "''Hurricane Ida''" "pages example_bot" plain_text "\<lparr>new = Some 12345\<rparr>"]
    example_undo_text decimal_12345
  by (simp add: example_change_def example_bot_def plain_text_def to_string_def number_to_string_def)

text \<open>
  C2, as the specification has it: the reason would be \<^verbatim>\<open>unsourced claim\<close>. The
  Rollback pattern ends at the second \<^verbatim>\<open>(talk)\<close>, no later pattern matches what
  is left, and nothing trims: the reason keeps the colon and the space.
\<close>

theorem rollback_reason_counterexample:
  "classify plain_text [''Hurricane Katrina'', ''Hurricane Ida'']
     (example_change
        ''Reverted 1 edit by Foo (talk) to last version by Bar (talk): unsourced claim'')
     = Inr (Qualifying (Some ''Alice'') ''Hurricane Ida'' (Some 12345) '': unsourced claim'')
   \<and> '': unsourced claim'' \<noteq> ''unsourced claim''"
  using classify_rollback [of "example_change rollback_comment" "''Hurricane Ida''"
      "[''Hurricane Katrina'', ''Hurricane Ida'']" plain_text "\<lparr>new = Some 12345\<rparr>"]
  by (simp add: example_change_def plain_text_def rollback_comment_def)

text \<open>
  C2, amended: an event that passes the filters, with the comment and the rendered
  text \<^verbatim>\<open>Reverted 1 edit by Foo (talk) to last version by Bar (talk): unsourced claim\<close>,
  is classified \<open>Qualifying\<close> with the reason \<^verbatim>\<open>: unsourced claim\<close>.
\<close>

theorem rollback_reason:
  assumes "wiki ev = Some ''enwiki''" and "type ev = Some ''edit''"
    and "title ev = Some t" and "t \<in> set this_pages"
    and "user ev \<noteq> Some ''ClueBot NG''"
    and "comment ev =
      Some ''Reverted 1 edit by Foo (talk) to last version by Bar (talk): unsourced claim''"
    and "root_text (parsedcomment ev) =
      Inr ''Reverted 1 edit by Foo (talk) to last version by Bar (talk): unsourced claim''"
    and "revision ev = Some rv"
  shows "classify root_text this_pages ev =
    Inr (Qualifying (user ev) t (new rv) '': unsourced claim'')"
  using classify_rollback [of ev t this_pages root_text rv] assms
  by (simp add: rollback_comment_def)

theorem rollback_reason_witness:
  "classify plain_text [''Hurricane Ida'']
     ((example_change
        ''Reverted 1 edit by Foo (talk) to last version by Bar (talk): unsourced claim'')
      \<lparr>user := Some ''Bob''\<rparr>)
     = Inr (Qualifying (Some ''Bob'') ''Hurricane Ida'' (Some 12345) '': unsourced claim'')"
  using rollback_reason [of "(example_change
        ''Reverted 1 edit by Foo (talk) to last version by Bar (talk): unsourced claim'')
      \<lparr>user := Some ''Bob''\<rparr>" "''Hurricane Ida''" "[''Hurricane Ida'']" plain_text
      "\<lparr>new = Some 12345\<rparr>"]
  by (simp add: example_change_def plain_text_def)

subsection \<open>Errors\<close>

text \<open>
  C5, as the specification has it: no error leaves the handler. An event that
  passes the wiki, type and page filters and has no comment raises a
  \<^verbatim>\<open>TypeError\<close> at \<^verbatim>\<open>change.comment.includes\<close>, and the handler has nothing
  that catches it.
\<close>

theorem recentchange_error_counterexample:
  "recentchange plain_text \<lparr>pages = [''Hurricane Ida''], tweets = []\<rparr>
     \<lparr>wiki = Some ''enwiki'', type = Some ''edit'', title = Some ''Hurricane Ida'',
      user = Some ''Alice'', comment = None, parsedcomment = None,
      revision = Some \<lparr>new = Some 12345\<rparr>\<rparr> = Inl TypeError"
  by (simp add: recentchange_def classify_def pages_includes_def)

text \<open>
  C5, amended: the handler raises no error on an event that the wiki, type or
  page filter stops, whatever is missing in it, and none on an event that has a
  comment and a revision and whose rendered comment the library turns into text.
  On an event that passes the three filters and has no comment, it raises a
  \<^verbatim>\<open>TypeError\<close>.
\<close>

theorem recentchange_no_error:
  "((type ev \<noteq> Some ''edit'' \<or> wiki ev \<noteq> Some ''enwiki''
       \<or> title ev \<notin> Some ` set (pages this))
      \<or> (comment ev \<noteq> None \<and> revision ev \<noteq> None
          \<and> root_text (parsedcomment ev) = Inr summary)
     \<longrightarrow> (\<exists>this'. recentchange root_text this ev = Inr this'))
   \<and> (type ev = Some ''edit'' \<and> wiki ev = Some ''enwiki''
        \<and> title ev \<in> Some ` set (pages this) \<and> comment ev = None
     \<longrightarrow> recentchange root_text this ev = Inl TypeError)"
proof (intro conjI impI)
  assume "(type ev \<noteq> Some ''edit'' \<or> wiki ev \<noteq> Some ''enwiki''
       \<or> title ev \<notin> Some ` set (pages this))
      \<or> (comment ev \<noteq> None \<and> revision ev \<noteq> None
          \<and> root_text (parsedcomment ev) = Inr summary)"
  then have "\<exists>q. classify root_text (pages this) ev = Inr q"
    by (auto simp: classify_def pages_includes_def split: option.splits prod.splits bool.splits)
  then show "\<exists>this'. recentchange root_text this ev = Inr this'"
    by (auto simp: recentchange_def split: classification.splits)
next
  assume "type ev = Some ''edit'' \<and> wiki ev = Some ''enwiki''
        \<and> title ev \<in> Some ` set (pages this) \<and> comment ev = None"
  then have "classify root_text (pages this) ev = Inl TypeError"
    by (auto simp: classify_def pages_includes_def)
  then show "recentchange root_text this ev = Inl TypeError"
    by (simp add: recentchange_def)
qed

theorem recentchange_no_error_witness:
  "(\<exists>this'. recentchange plain_text example_bot
       ((example_change undo_comment)\<lparr>comment := None, wiki := Some ''dewiki''\<rparr>) = Inr this')
   \<and> (\<exists>this'. recentchange plain_text example_bot (example_change undo_comment) = Inr this')
   \<and> recentchange plain_text example_bot ((example_change undo_comment)\<lparr>comment := None\<rparr>)
       = Inl TypeError"
  using recentchange_no_error [of "(example_change undo_comment)\<lparr>comment := None, wiki := Some ''dewiki''\<rparr>"
      example_bot plain_text undo_comment]
    recentchange_no_error [of "example_change undo_comment" example_bot plain_text undo_comment]
    recentchange_no_error [of "(example_change undo_comment)\<lparr>comment := None\<rparr>" example_bot
      plain_text undo_comment]
  by (simp add: example_change_def example_bot_def plain_text_def)

subsection \<open>Replacing in a text with unknown parts\<close>

lemma get_substitution_plain:
  "CHR ''$'' \<notin> set replacement \<Longrightarrow> get_substitution m b a replacement = replacement"
  by (induction m b a replacement rule: get_substitution.induct) auto

lemma replace_from_Nil:
  "matches ic n r [] = [] \<Longrightarrow> replace_from ic r replacement inp n [] = []"
  by (subst replace_from.simps) simp

lemma replace_from_miss:
  "matches ic n r (x # xs) = [] \<Longrightarrow>
   replace_from ic r replacement inp n (x # xs) = x # replace_from ic r replacement inp n xs"
  by (subst replace_from.simps) simp

lemma replace_from_hit:
  assumes "matches ic n r rest = e # es" and "length e < length rest"
    and "CHR ''$'' \<notin> set replacement"
  shows "replace_from ic r replacement inp n rest =
         replacement @ replace_from ic r replacement inp n e"
  using assms by (subst replace_from.simps) (simp add: get_substitution_plain)

lemma replace_from_skip:
  assumes "\<And>i. i < length xs \<Longrightarrow> matches ic n r (drop i xs @ rest) = []"
  shows "replace_from ic r replacement inp n (xs @ rest) =
         xs @ replace_from ic r replacement inp n rest"
  using assms
proof (induction xs)
  case Nil
  show ?case by simp
next
  case (Cons x xs)
  have "matches ic n r (x # xs @ rest) = []"
    using Cons.prems [of 0] by simp
  moreover have "replace_from ic r replacement inp n (xs @ rest) =
      xs @ replace_from ic r replacement inp n rest"
  proof (rule Cons.IH)
    fix i assume "i < length xs"
    then show "matches ic n r (drop i xs @ rest) = []"
      using Cons.prems [of "Suc i"] by simp
  qed
  ultimately show ?case by (simp add: replace_from_miss)
qed

lemma lit_False:
  "lit False p s = (if prefix p s then Some (drop (length p) s) else None)"
  by (induction False p s rule: lit.induct) auto

lemma drop_append_head:
  "i < length xs \<Longrightarrow> \<exists>ys. drop i xs @ rest = xs ! i # ys"
  by (metis Cons_nth_drop_Suc append_Cons)

text \<open>A literal is not found in a text that does not have its first character.\<close>

lemma replace_Lit_skip:
  assumes "c \<notin> set xs"
  shows "replace_from False (Lit (c # p)) replacement inp n (xs @ rest) =
         xs @ replace_from False (Lit (c # p)) replacement inp n rest"
proof (rule replace_from_skip)
  fix i assume i: "i < length xs"
  then obtain ys where ys: "drop i xs @ rest = xs ! i # ys"
    using drop_append_head by blast
  from i assms have "xs ! i \<noteq> c" by (metis nth_mem)
  then show "matches False n (Lit (c # p)) (drop i xs @ rest) = []"
    unfolding ys by simp
qed

lemma replace_Lit_hit:
  assumes "CHR ''$'' \<notin> set replacement"
  shows "replace_from False (Lit (c # p)) replacement inp n ((c # p) @ rest) =
         replacement @ replace_from False (Lit (c # p)) replacement inp n rest"
proof (rule replace_from_hit [where es = "[]"])
  show "matches False n (Lit (c # p)) ((c # p) @ rest) = [rest]"
    by (simp add: lit_False del: lit.simps)
  show "length rest < length ((c # p) @ rest)" by simp
  show "CHR ''$'' \<notin> set replacement" by fact
qed

lemma replace_Lit_Nil:
  "replace_from False (Lit (c # p)) replacement inp n [] = []"
  by (rule replace_from_Nil) simp

subsection \<open>The placeholders of the templates\<close>

lemma replace_placeholder:
  "replace s (placeholder name) replacement =
   replace_from False (Lit (''{{{'' @ name @ ''}}}'')) replacement s (length s) s"
  by (simp add: replace_def placeholder_def new_RegExp_def)

lemma placeholder_skip:
  assumes "CHR ''{'' \<notin> set xs"
  shows "replace_from False (Lit (''{{{'' @ name @ ''}}}'')) replacement inp n (xs @ rest) =
         xs @ replace_from False (Lit (''{{{'' @ name @ ''}}}'')) replacement inp n rest"
  using replace_Lit_skip [OF assms] by simp

lemma placeholder_hit:
  assumes "CHR ''$'' \<notin> set replacement"
  shows "replace_from False (Lit (''{{{'' @ name @ ''}}}'')) replacement inp n
           ((''{{{'' @ name @ ''}}}'') @ rest) =
         replacement @ replace_from False (Lit (''{{{'' @ name @ ''}}}'')) replacement inp n rest"
  using replace_Lit_hit [OF assms, of "CHR ''{''" "''{{'' @ name @ ''}}}''" inp n rest] by simp

text \<open>
  Looking for one placeholder, another one is passed over: the two names start
  with different letters.
\<close>

lemma placeholder_other:
  assumes "a \<noteq> b" and "a \<noteq> CHR ''{''" and "b \<noteq> CHR ''{''" and "CHR ''{'' \<notin> set bs"
  shows "replace_from False (Lit (''{{{'' @ (a # as) @ ''}}}'')) replacement inp n
           ((''{{{'' @ (b # bs) @ ''}}}'') @ rest) =
         (''{{{'' @ (b # bs) @ ''}}}'') @
           replace_from False (Lit (''{{{'' @ (a # as) @ ''}}}'')) replacement inp n rest"
proof -
  let ?rf = "replace_from False (Lit (''{{{'' @ (a # as) @ ''}}}'')) replacement inp n"
  have tail: "?rf ((b # bs @ ''}}}'') @ rest) = (b # bs @ ''}}}'') @ ?rf rest"
    using placeholder_skip [of "b # bs @ ''}}}''" "a # as" replacement inp n rest] assms by simp
  have "?rf (''{{{'' @ (b # bs @ ''}}}'') @ rest) = ''{{{'' @ ?rf ((b # bs @ ''}}}'') @ rest)"
    using assms by (simp add: replace_from_miss)
  with tail show ?thesis by simp
qed

lemma placeholder_Nil:
  "replace_from False (Lit (''{{{'' @ name @ ''}}}'')) replacement inp n [] = []"
  using replace_Lit_Nil [of "CHR ''{''"] by simp

lemma user_title:
  "replace_from False (Lit (''{{{'' @ ''user'' @ ''}}}'')) replacement inp n
     ((''{{{'' @ ''title'' @ ''}}}'') @ rest) =
   (''{{{'' @ ''title'' @ ''}}}'') @
     replace_from False (Lit (''{{{'' @ ''user'' @ ''}}}'')) replacement inp n rest"
  by (rule placeholder_other) simp_all

lemma user_summary:
  "replace_from False (Lit (''{{{'' @ ''user'' @ ''}}}'')) replacement inp n
     ((''{{{'' @ ''summary'' @ ''}}}'') @ rest) =
   (''{{{'' @ ''summary'' @ ''}}}'') @
     replace_from False (Lit (''{{{'' @ ''user'' @ ''}}}'')) replacement inp n rest"
  by (rule placeholder_other) simp_all

lemma user_diff:
  "replace_from False (Lit (''{{{'' @ ''user'' @ ''}}}'')) replacement inp n
     ((''{{{'' @ ''diff'' @ ''}}}'') @ rest) =
   (''{{{'' @ ''diff'' @ ''}}}'') @
     replace_from False (Lit (''{{{'' @ ''user'' @ ''}}}'')) replacement inp n rest"
  by (rule placeholder_other) simp_all

lemma title_summary:
  "replace_from False (Lit (''{{{'' @ ''title'' @ ''}}}'')) replacement inp n
     ((''{{{'' @ ''summary'' @ ''}}}'') @ rest) =
   (''{{{'' @ ''summary'' @ ''}}}'') @
     replace_from False (Lit (''{{{'' @ ''title'' @ ''}}}'')) replacement inp n rest"
  by (rule placeholder_other) simp_all

lemma title_diff:
  "replace_from False (Lit (''{{{'' @ ''title'' @ ''}}}'')) replacement inp n
     ((''{{{'' @ ''diff'' @ ''}}}'') @ rest) =
   (''{{{'' @ ''diff'' @ ''}}}'') @
     replace_from False (Lit (''{{{'' @ ''title'' @ ''}}}'')) replacement inp n rest"
  by (rule placeholder_other) simp_all

lemma summary_diff:
  "replace_from False (Lit (''{{{'' @ ''summary'' @ ''}}}'')) replacement inp n
     ((''{{{'' @ ''diff'' @ ''}}}'') @ rest) =
   (''{{{'' @ ''diff'' @ ''}}}'') @
     replace_from False (Lit (''{{{'' @ ''summary'' @ ''}}}'')) replacement inp n rest"
  by (rule placeholder_other) simp_all

lemmas placeholder_steps = replace_placeholder placeholder_skip placeholder_hit placeholder_Nil
  user_title user_summary user_diff title_summary title_diff summary_diff simp_thms

text \<open>
  A template with the four placeholders in the order of \<open>TWEET_TEXT\<close>, between
  texts without braces, filled with values without braces and dollar signs.
\<close>

lemma fill_three:
  assumes "CHR ''{'' \<notin> set a" and "CHR ''{'' \<notin> set b" and "CHR ''{'' \<notin> set c"
    and "CHR ''{'' \<notin> set d"
    and "CHR ''{'' \<notin> set U" and "CHR ''{'' \<notin> set T"
    and "CHR ''$'' \<notin> set U" and "CHR ''$'' \<notin> set T" and "CHR ''$'' \<notin> set S"
  shows "replace
           (replace
              (replace
                 (a @ (''{{{'' @ ''user'' @ ''}}}'') @ b @ (''{{{'' @ ''title'' @ ''}}}'') @ c @
                    (''{{{'' @ ''summary'' @ ''}}}'') @ d @ (''{{{'' @ ''diff'' @ ''}}}'') @ [])
                 (placeholder ''user'') U)
              (placeholder ''title'') T)
           (placeholder ''summary'') S =
         a @ U @ b @ T @ c @ S @ d @ (''{{{'' @ ''diff'' @ ''}}}'') @ []"
proof -
  have 1: "replace
       (a @ (''{{{'' @ ''user'' @ ''}}}'') @ b @ (''{{{'' @ ''title'' @ ''}}}'') @ c @
          (''{{{'' @ ''summary'' @ ''}}}'') @ d @ (''{{{'' @ ''diff'' @ ''}}}'') @ [])
       (placeholder ''user'') U =
     a @ U @ b @ (''{{{'' @ ''title'' @ ''}}}'') @ c @
       (''{{{'' @ ''summary'' @ ''}}}'') @ d @ (''{{{'' @ ''diff'' @ ''}}}'') @ []"
    by (simp only: placeholder_steps assms)
  have 2: "replace
       (a @ U @ b @ (''{{{'' @ ''title'' @ ''}}}'') @ c @
          (''{{{'' @ ''summary'' @ ''}}}'') @ d @ (''{{{'' @ ''diff'' @ ''}}}'') @ [])
       (placeholder ''title'') T =
     a @ U @ b @ T @ c @ (''{{{'' @ ''summary'' @ ''}}}'') @ d @ (''{{{'' @ ''diff'' @ ''}}}'') @ []"
    by (simp only: placeholder_steps assms)
  have 3: "replace
       (a @ U @ b @ T @ c @ (''{{{'' @ ''summary'' @ ''}}}'') @ d @ (''{{{'' @ ''diff'' @ ''}}}'') @ [])
       (placeholder ''summary'') S =
     a @ U @ b @ T @ c @ S @ d @ (''{{{'' @ ''diff'' @ ''}}}'') @ []"
    by (simp only: placeholder_steps assms)
  show ?thesis by (simp only: 1 2 3)
qed

lemma fill_diff:
  assumes "CHR ''{'' \<notin> set xs" and "CHR ''$'' \<notin> set D"
  shows "replace (xs @ (''{{{'' @ ''diff'' @ ''}}}'') @ []) (placeholder ''diff'') D = xs @ D @ []"
  by (simp only: placeholder_steps assms)

lemma fill_two:
  assumes "CHR ''{'' \<notin> set a" and "CHR ''{'' \<notin> set b" and "CHR ''{'' \<notin> set c"
    and "CHR ''{'' \<notin> set U"
    and "CHR ''$'' \<notin> set U" and "CHR ''$'' \<notin> set T"
  shows "replace
           (replace
              (a @ (''{{{'' @ ''user'' @ ''}}}'') @ b @ (''{{{'' @ ''title'' @ ''}}}'') @ c @
                 (''{{{'' @ ''diff'' @ ''}}}'') @ [])
              (placeholder ''user'') U)
           (placeholder ''title'') T =
         a @ U @ b @ T @ c @ (''{{{'' @ ''diff'' @ ''}}}'') @ []"
proof -
  have 1: "replace
       (a @ (''{{{'' @ ''user'' @ ''}}}'') @ b @ (''{{{'' @ ''title'' @ ''}}}'') @ c @
          (''{{{'' @ ''diff'' @ ''}}}'') @ [])
       (placeholder ''user'') U =
     a @ U @ b @ (''{{{'' @ ''title'' @ ''}}}'') @ c @ (''{{{'' @ ''diff'' @ ''}}}'') @ []"
    by (simp only: placeholder_steps assms)
  have 2: "replace
       (a @ U @ b @ (''{{{'' @ ''title'' @ ''}}}'') @ c @ (''{{{'' @ ''diff'' @ ''}}}'') @ [])
       (placeholder ''title'') T =
     a @ U @ b @ T @ c @ (''{{{'' @ ''diff'' @ ''}}}'') @ []"
    by (simp only: placeholder_steps assms)
  show ?thesis by (simp only: 1 2)
qed

subsection \<open>The budget\<close>

lemma str_includes_iff:
  "str_includes s t \<longleftrightarrow> (\<exists>i\<le>length s. prefix t (drop i s))"
proof (induction s)
  case Nil
  show ?case by simp
next
  case (Cons c cs)
  have "(\<exists>i\<le>length (c # cs). prefix t (drop i (c # cs))) \<longleftrightarrow>
        prefix t (c # cs) \<or> (\<exists>i\<le>length cs. prefix t (drop i cs))"
  proof
    assume "\<exists>i\<le>length (c # cs). prefix t (drop i (c # cs))"
    then obtain i where i: "i \<le> length (c # cs)" "prefix t (drop i (c # cs))" by blast
    show "prefix t (c # cs) \<or> (\<exists>i\<le>length cs. prefix t (drop i cs))"
    proof (cases i)
      case 0
      with i show ?thesis by simp
    next
      case (Suc j)
      with i have "j \<le> length cs" "prefix t (drop j cs)" by simp_all
      then show ?thesis by blast
    qed
  next
    assume "prefix t (c # cs) \<or> (\<exists>i\<le>length cs. prefix t (drop i cs))"
    then show "\<exists>i\<le>length (c # cs). prefix t (drop i (c # cs))"
    proof
      assume "prefix t (c # cs)"
      then have "0 \<le> length (c # cs) \<and> prefix t (drop 0 (c # cs))" by simp
      then show ?thesis by blast
    next
      assume "\<exists>i\<le>length cs. prefix t (drop i cs)"
      then obtain j where "j \<le> length cs" "prefix t (drop j cs)" by blast
      then have "Suc j \<le> length (c # cs) \<and> prefix t (drop (Suc j) (c # cs))" by simp
      then show ?thesis by blast
    qed
  qed
  with Cons show ?case by (simp add: lit_False del: lit.simps)
qed

lemma no_prefix_inside:
  assumes "\<not> str_includes xs p" and "y \<notin> set p" and "i < length xs"
  shows "\<not> prefix p (drop i xs @ y # rest)"
proof
  assume pre: "prefix p (drop i xs @ y # rest)"
  show False
  proof (cases "length p \<le> length (drop i xs)")
    case True
    with pre have "prefix p (drop i xs)"
      by (metis prefix_length_prefix prefixI)
    with assms(1,3) show False by (auto simp: str_includes_iff intro: less_imp_le)
  next
    case False
    then have "length (drop i xs) < length p" by simp
    with pre have "p ! length (drop i xs) = (drop i xs @ y # rest) ! length (drop i xs)"
      by (metis prefixE nth_append)
    then have "p ! length (drop i xs) = y" by (simp add: nth_append)
    with \<open>length (drop i xs) < length p\<close> assms(2) show False by (metis nth_mem)
  qed
qed

lemma replace_https:
  "replace s https_to_end replacement =
   replace_from False (cat [Lit ''https:'', Plus Dot, Eol]) replacement s (length s) s"
  by (simp add: replace_def https_to_end_def new_RegExp_def)

lemma https_no_match:
  "\<not> prefix ''https:'' s \<Longrightarrow> matches False n (cat [Lit ''https:'', Plus Dot, Eol]) s = []"
  by (simp add: lit_False del: lit.simps)

lemma https_skip_chars:
  assumes "CHR ''h'' \<notin> set xs"
  shows "replace_from False (cat [Lit ''https:'', Plus Dot, Eol]) replacement inp n (xs @ rest) =
         xs @ replace_from False (cat [Lit ''https:'', Plus Dot, Eol]) replacement inp n rest"
proof (rule replace_from_skip)
  fix i assume i: "i < length xs"
  then obtain ys where ys: "drop i xs @ rest = xs ! i # ys"
    using drop_append_head by blast
  from i assms have "xs ! i \<noteq> CHR ''h''" by (metis nth_mem)
  then have "\<not> prefix ''https:'' (drop i xs @ rest)" unfolding ys by simp
  then show "matches False n (cat [Lit ''https:'', Plus Dot, Eol]) (drop i xs @ rest) = []"
    by (rule https_no_match)
qed

lemma https_skip_text:
  assumes "\<not> str_includes xs ''https:''" and "y \<notin> set ''https:''"
  shows "replace_from False (cat [Lit ''https:'', Plus Dot, Eol]) replacement inp n (xs @ y # rest) =
         xs @ y # replace_from False (cat [Lit ''https:'', Plus Dot, Eol]) replacement inp n rest"
proof -
  have "replace_from False (cat [Lit ''https:'', Plus Dot, Eol]) replacement inp n (xs @ y # rest) =
        xs @ replace_from False (cat [Lit ''https:'', Plus Dot, Eol]) replacement inp n (y # rest)"
  proof (rule replace_from_skip)
    fix i assume "i < length xs"
    with assms have "\<not> prefix ''https:'' (drop i xs @ y # rest)"
      by (rule no_prefix_inside)
    then show "matches False n (cat [Lit ''https:'', Plus Dot, Eol]) (drop i xs @ y # rest) = []"
      by (rule https_no_match)
  qed
  moreover have "replace_from False (cat [Lit ''https:'', Plus Dot, Eol]) replacement inp n (y # rest) =
        y # replace_from False (cat [Lit ''https:'', Plus Dot, Eol]) replacement inp n rest"
  proof (rule replace_from_miss)
    from assms(2) have "\<not> prefix ''https:'' (y # rest)" by auto
    then show "matches False n (cat [Lit ''https:'', Plus Dot, Eol]) (y # rest) = []"
      by (rule https_no_match)
  qed
  ultimately show ?thesis by simp
qed

lemma plus_greedy_all:
  "s \<noteq> [] \<Longrightarrow> list_all (cclass_match ic cl) s \<Longrightarrow> \<exists>rest. plus_greedy ic cl s = [] # rest"
proof (induction s)
  case Nil
  then show ?case by simp
next
  case (Cons c cs)
  show ?case
  proof (cases cs)
    case Nil
    with Cons.prems show ?thesis by simp
  next
    case (Cons c' cs')
    with Cons.IH Cons.prems obtain rest where "plus_greedy ic cl cs = [] # rest" by auto
    with Cons.prems show ?thesis by simp
  qed
qed

lemma https_url_matches:
  "\<exists>es. matches False n (cat [Lit ''https:'', Plus Dot, Eol])
     ''https://en.wikipedia.org/wiki/Special:Diff/{{{diff}}}'' = [] # es"
proof -
  obtain rest where "plus_greedy False Dot ''//en.wikipedia.org/wiki/Special:Diff/{{{diff}}}'' = [] # rest"
    using plus_greedy_all [of "''//en.wikipedia.org/wiki/Special:Diff/{{{diff}}}''" False Dot]
    by auto
  then show ?thesis by simp
qed

lemma https_url:
  assumes "CHR ''$'' \<notin> set replacement"
  shows "replace_from False (cat [Lit ''https:'', Plus Dot, Eol]) replacement inp n
           ''https://en.wikipedia.org/wiki/Special:Diff/{{{diff}}}'' = replacement"
proof -
  obtain es where "matches False n (cat [Lit ''https:'', Plus Dot, Eol])
     ''https://en.wikipedia.org/wiki/Special:Diff/{{{diff}}}'' = [] # es"
    using https_url_matches by blast
  then have "replace_from False (cat [Lit ''https:'', Plus Dot, Eol]) replacement inp n
           ''https://en.wikipedia.org/wiki/Special:Diff/{{{diff}}}'' =
        replacement @ replace_from False (cat [Lit ''https:'', Plus Dot, Eol]) replacement inp n []"
    using assms by (intro replace_from_hit) simp_all
  moreover have "replace_from False (cat [Lit ''https:'', Plus Dot, Eol]) replacement inp n [] = []"
    by (rule replace_from_Nil) simp
  ultimately show ?thesis by simp
qed

lemma https_fill:
  assumes "CHR ''h'' \<notin> set a" and "CHR ''h'' \<notin> set b" and "CHR ''h'' \<notin> set c"
    and "\<not> str_includes U ''https:''" and "\<not> str_includes T ''https:''"
    and "y1 \<notin> set ''https:''" and "y2 \<notin> set ''https:''"
    and "\<And>inp n. replace_from False (cat [Lit ''https:'', Plus Dot, Eol]) replacement inp n url
           = replacement"
  shows "replace (a @ U @ y1 # b @ T @ y2 # c @ url) https_to_end replacement =
         a @ U @ y1 # b @ T @ y2 # c @ replacement"
  by (simp only: replace_https https_skip_chars https_skip_text assms simp_thms)

lemma decimal_digits: "set (decimal n) \<subseteq> set ''0123456789''"
proof (induction n rule: decimal.induct)
  case (1 n)
  have d: "''0123456789'' ! k \<in> set ''0123456789''" if "k < 10" for k
    using that by (intro nth_mem) simp
  show ?case
  proof (cases "n < 10")
    case True
    with d [of n] show ?thesis by (subst decimal.simps) simp
  next
    case False
    with 1 d [of "n mod 10"] show ?thesis by (subst decimal.simps) simp
  qed
qed

lemma number_to_string_plain:
  "CHR ''$'' \<notin> set (number_to_string d)"
proof (cases d)
  case None
  then show ?thesis by (simp add: number_to_string_def)
next
  case (Some n)
  have "CHR ''$'' \<notin> set ''0123456789''" by simp
  with decimal_digits [of n] Some show ?thesis
    by (auto simp: number_to_string_def simp del: decimal.simps)
qed

lemma TWEET_TEXT_segments:
  "TWEET_TEXT = ''New revert by '' @ (''{{{'' @ ''user'' @ ''}}}'') @ '' on \"'' @
     (''{{{'' @ ''title'' @ ''}}}'') @ ''\": \"'' @ (''{{{'' @ ''summary'' @ ''}}}'') @
     ''\" https://en.wikipedia.org/wiki/Special:Diff/'' @ (''{{{'' @ ''diff'' @ ''}}}'') @ []"
  by (simp add: TWEET_TEXT_def TWEET_URL_def)

lemma TWEET_TEXT_EMPTY_segments:
  "TWEET_TEXT_EMPTY = ''New revert by '' @ (''{{{'' @ ''user'' @ ''}}}'') @ '' on \"'' @
     (''{{{'' @ ''title'' @ ''}}}'') @
     ''\" with no given reason. https://en.wikipedia.org/wiki/Special:Diff/'' @
     (''{{{'' @ ''diff'' @ ''}}}'') @ []"
  by (simp add: TWEET_TEXT_EMPTY_def TWEET_URL_def)

text \<open>
  The budget of line 109, for a user name and a title without braces, dollar
  signs and \<^verbatim>\<open>https:\<close>: the link counts as 24 characters.
\<close>

lemma nonSummaryLength_plain:
  assumes "CHR ''$'' \<notin> set (to_string u @ t)" and "CHR ''{'' \<notin> set (to_string u @ t)"
    and "\<not> str_includes (to_string u) ''https:''" and "\<not> str_includes t ''https:''"
  shows "nonSummaryLength u t = 231 - int (length (to_string u)) - int (length t)"
proof -
  have 3: "replace
       (replace
          (replace TWEET_TEXT (placeholder ''user'') (to_string u))
          (placeholder ''title'') t)
       (placeholder ''summary'') [] =
     ''New revert by '' @ to_string u @ '' on \"'' @ t @ ''\": \"'' @ [] @
     ''\" https://en.wikipedia.org/wiki/Special:Diff/'' @ (''{{{'' @ ''diff'' @ ''}}}'') @ []"
    unfolding TWEET_TEXT_segments by (rule fill_three) (use assms in simp_all)
  have 4: "replace
       (''New revert by '' @ to_string u @ CHR '' '' # ''on \"'' @ t @ CHR 0x22 # '': \"\" '' @
          ''https://en.wikipedia.org/wiki/Special:Diff/{{{diff}}}'')
       https_to_end (replicate 24 CHR ''-'') =
     ''New revert by '' @ to_string u @ CHR '' '' # ''on \"'' @ t @ CHR 0x22 # '': \"\" '' @
       replicate 24 CHR ''-''"
  proof (rule https_fill)
    show "replace_from False (cat [Lit ''https:'', Plus Dot, Eol]) (replicate 24 CHR ''-'') inp n
        ''https://en.wikipedia.org/wiki/Special:Diff/{{{diff}}}'' = replicate 24 CHR ''-''" for inp n
      by (rule https_url) simp
  qed (use assms in simp_all)
  have "nonSummaryLength u t =
      280 - int (length (''New revert by '' @ to_string u @ CHR '' '' # ''on \"'' @ t @
        CHR 0x22 # '': \"\" '' @ replicate 24 CHR ''-''))"
    unfolding nonSummaryLength_def 3 using 4 by simp
  then show ?thesis by simp
qed

lemma format_nonempty:
  assumes "CHR ''$'' \<notin> set (to_string u @ t @ stripped)"
    and "CHR ''{'' \<notin> set (to_string u @ t @ stripped)"
    and "\<not> str_includes (to_string u) ''https:''" and "\<not> str_includes t ''https:''"
    and "stripped \<noteq> []"
  shows "format u t diff stripped =
     ''New revert by '' @ to_string u @ '' on \"'' @ t @ ''\": \"'' @
     take (nat (231 - int (length (to_string u)) - int (length t))) stripped @
     ''\" https://en.wikipedia.org/wiki/Special:Diff/'' @ number_to_string diff"
proof -
  let ?S = "substr0 stripped (nonSummaryLength u t)"
  have S: "?S = take (nat (231 - int (length (to_string u)) - int (length t))) stripped"
    using assms nonSummaryLength_plain [of u t] by (simp add: substr0_def)
  have sub: "set ?S \<subseteq> set stripped"
    unfolding S by (rule set_take_subset)
  have 3: "replace
       (replace
          (replace TWEET_TEXT (placeholder ''user'') (to_string u))
          (placeholder ''title'') t)
       (placeholder ''summary'') ?S =
     ''New revert by '' @ to_string u @ '' on \"'' @ t @ ''\": \"'' @ ?S @
     ''\" https://en.wikipedia.org/wiki/Special:Diff/'' @ (''{{{'' @ ''diff'' @ ''}}}'') @ []"
    unfolding TWEET_TEXT_segments by (rule fill_three) (use assms sub in auto)
  have 4: "replace
       ((''New revert by '' @ to_string u @ '' on \"'' @ t @ ''\": \"'' @ ?S @
           ''\" https://en.wikipedia.org/wiki/Special:Diff/'') @ (''{{{'' @ ''diff'' @ ''}}}'') @ [])
       (placeholder ''diff'') (number_to_string diff) =
     (''New revert by '' @ to_string u @ '' on \"'' @ t @ ''\": \"'' @ ?S @
       ''\" https://en.wikipedia.org/wiki/Special:Diff/'') @ number_to_string diff @ []"
    by (rule fill_diff) (use assms sub number_to_string_plain in auto)
  have "format u t diff stripped =
      replace
        (replace
           (replace
              (replace TWEET_TEXT (placeholder ''user'') (to_string u))
              (placeholder ''title'') t)
           (placeholder ''summary'') ?S)
        (placeholder ''diff'') (number_to_string diff)"
    using assms(5) by (simp add: format_def)
  also have "\<dots> = (''New revert by '' @ to_string u @ '' on \"'' @ t @ ''\": \"'' @ ?S @
       ''\" https://en.wikipedia.org/wiki/Special:Diff/'') @ number_to_string diff @ []"
    unfolding 3 using 4 by simp
  finally show ?thesis unfolding S by simp
qed

lemma format_empty:
  assumes "CHR ''$'' \<notin> set (to_string u @ t)" and "CHR ''{'' \<notin> set (to_string u @ t)"
  shows "format u t diff [] =
     ''New revert by '' @ to_string u @ '' on \"'' @ t @
     ''\" with no given reason. https://en.wikipedia.org/wiki/Special:Diff/'' @
     number_to_string diff"
proof -
  have 2: "replace
       (replace TWEET_TEXT_EMPTY (placeholder ''user'') (to_string u))
       (placeholder ''title'') t =
     ''New revert by '' @ to_string u @ '' on \"'' @ t @
     ''\" with no given reason. https://en.wikipedia.org/wiki/Special:Diff/'' @
     (''{{{'' @ ''diff'' @ ''}}}'') @ []"
    unfolding TWEET_TEXT_EMPTY_segments by (rule fill_two) (use assms in simp_all)
  have 3: "replace
       ((''New revert by '' @ to_string u @ '' on \"'' @ t @
          ''\" with no given reason. https://en.wikipedia.org/wiki/Special:Diff/'') @
          (''{{{'' @ ''diff'' @ ''}}}'') @ [])
       (placeholder ''diff'') (number_to_string diff) =
     (''New revert by '' @ to_string u @ '' on \"'' @ t @
        ''\" with no given reason. https://en.wikipedia.org/wiki/Special:Diff/'') @
        number_to_string diff @ []"
    by (rule fill_diff) (use assms number_to_string_plain in auto)
  have "format u t diff [] =
      replace
        (replace
           (replace TWEET_TEXT_EMPTY (placeholder ''user'') (to_string u))
           (placeholder ''title'') t)
        (placeholder ''diff'') (number_to_string diff)"
    by (simp add: format_def)
  also have "\<dots> = (''New revert by '' @ to_string u @ '' on \"'' @ t @
        ''\" with no given reason. https://en.wikipedia.org/wiki/Special:Diff/'') @
        number_to_string diff @ []"
    unfolding 2 using 3 by simp
  finally show ?thesis by simp
qed

subsection \<open>The length of the text\<close>

text \<open>
  C1, as the specification has it: the text has at most 280 characters. The
  budget of line 109 counts the link as 24 characters, and the link itself has 43
  characters and the digits of the revision; a reason of 250 characters after a
  short user name and title gives a text of 309 characters. The template without
  a reason is not measured at all: for an undo without a reason on a page whose
  title has 250 characters, the handler publishes a text of 346 characters.
\<close>

theorem format_length_counterexample:
  "length (format (Some ''Alice'') ''Hurricane Ida'' (Some 1234567890) (replicate 250 CHR ''x''))
     = 309
   \<and> recentchange plain_text \<lparr>pages = [replicate 250 CHR ''T''], tweets = []\<rparr>
       \<lparr>wiki = Some ''enwiki'', type = Some ''edit'', title = Some (replicate 250 CHR ''T''),
        user = Some ''Alice'', comment = Some ''Undid revision 12345 by Foo (talk)'',
        parsedcomment = Some ''Undid revision 12345 by Foo (talk)'',
        revision = Some \<lparr>new = Some 12345\<rparr>\<rparr>
     = Inr \<lparr>pages = [replicate 250 CHR ''T''],
            tweets = [format (Some ''Alice'') (replicate 250 CHR ''T'') (Some 12345) []]\<rparr>
   \<and> length (format (Some ''Alice'') (replicate 250 CHR ''T'') (Some 12345) []) = 346"
proof -
  have d: "decimal 1234567890 = ''1234567890''" "decimal 12345 = ''12345''"
    by simp_all
  have "format (Some ''Alice'') ''Hurricane Ida'' (Some 1234567890) (replicate 250 CHR ''x'') =
     ''New revert by '' @ to_string (Some ''Alice'') @ '' on \"'' @ ''Hurricane Ida'' @ ''\": \"'' @
     take (nat (231 - int (length (to_string (Some ''Alice''))) - int (length ''Hurricane Ida'')))
       (replicate 250 CHR ''x'') @
     ''\" https://en.wikipedia.org/wiki/Special:Diff/'' @ number_to_string (Some 1234567890)"
    by (rule format_nonempty) (simp_all add: to_string_def)
  then have 1: "length (format (Some ''Alice'') ''Hurricane Ida'' (Some 1234567890)
      (replicate 250 CHR ''x'')) = 309"
    by (simp add: to_string_def number_to_string_def d del: decimal.simps)
  have "classify plain_text [replicate 250 CHR ''T'']
       \<lparr>wiki = Some ''enwiki'', type = Some ''edit'', title = Some (replicate 250 CHR ''T''),
        user = Some ''Alice'', comment = Some undo_comment, parsedcomment = Some undo_comment,
        revision = Some \<lparr>new = Some 12345\<rparr>\<rparr>
      = Inr (Qualifying (Some ''Alice'') (replicate 250 CHR ''T'') (Some 12345) [])"
    using classify_undo [of "\<lparr>wiki = Some ''enwiki'', type = Some ''edit'',
        title = Some (replicate 250 CHR ''T''),
        user = Some ''Alice'', comment = Some undo_comment, parsedcomment = Some undo_comment,
        revision = Some \<lparr>new = Some 12345\<rparr>\<rparr>" "replicate 250 CHR ''T''"
        "[replicate 250 CHR ''T'']" plain_text "\<lparr>new = Some 12345\<rparr>"]
    by (simp add: plain_text_def)
  then have 2: "recentchange plain_text \<lparr>pages = [replicate 250 CHR ''T''], tweets = []\<rparr>
       \<lparr>wiki = Some ''enwiki'', type = Some ''edit'', title = Some (replicate 250 CHR ''T''),
        user = Some ''Alice'', comment = Some ''Undid revision 12345 by Foo (talk)'',
        parsedcomment = Some ''Undid revision 12345 by Foo (talk)'',
        revision = Some \<lparr>new = Some 12345\<rparr>\<rparr>
     = Inr \<lparr>pages = [replicate 250 CHR ''T''],
            tweets = [format (Some ''Alice'') (replicate 250 CHR ''T'') (Some 12345) []]\<rparr>"
    by (simp add: recentchange_def undo_comment_def)
  have "format (Some ''Alice'') (replicate 250 CHR ''T'') (Some 12345) [] =
     ''New revert by '' @ to_string (Some ''Alice'') @ '' on \"'' @ replicate 250 CHR ''T'' @
     ''\" with no given reason. https://en.wikipedia.org/wiki/Special:Diff/'' @
     number_to_string (Some 12345)"
    by (rule format_empty) (simp_all add: to_string_def)
  then have 3: "length (format (Some ''Alice'') (replicate 250 CHR ''T'') (Some 12345) []) = 346"
    by (simp add: to_string_def number_to_string_def d del: decimal.simps)
  from 1 2 3 show ?thesis by blast
qed

text \<open>
  C1, amended: for a user name, a title and a reason without dollar signs and
  braces, and a user name and a title without \<^verbatim>\<open>https:\<close>, the text is a body
  followed by the link to the revision, and the body with 24 characters for the
  link has at most 280 characters: with a reason when the user name and the title
  have at most 231 characters together, without a reason when they have at most
  213.
\<close>

theorem format_within_budget:
  assumes "CHR ''$'' \<notin> set (to_string u @ t @ stripped)"
    and "CHR ''{'' \<notin> set (to_string u @ t @ stripped)"
    and "\<not> str_includes (to_string u) ''https:''" and "\<not> str_includes t ''https:''"
    and "length (to_string u) + length t \<le> (if stripped = [] then 213 else 231)"
  shows "\<exists>body. format u t diff stripped =
            body @ ''https://en.wikipedia.org/wiki/Special:Diff/'' @ number_to_string diff
          \<and> length body + 24 \<le> 280"
proof (cases "stripped = []")
  case True
  let ?body = "''New revert by '' @ to_string u @ '' on \"'' @ t @ ''\" with no given reason. ''"
  have "format u t diff stripped =
      ?body @ ''https://en.wikipedia.org/wiki/Special:Diff/'' @ number_to_string diff"
    using format_empty [of u t diff] assms(1,2) True by simp
  moreover have "length ?body + 24 \<le> 280"
    using assms(5) True by simp
  ultimately show ?thesis by blast
next
  case False
  let ?body = "''New revert by '' @ to_string u @ '' on \"'' @ t @ ''\": \"'' @
     take (nat (231 - int (length (to_string u)) - int (length t))) stripped @ ''\" ''"
  have "format u t diff stripped =
      ?body @ ''https://en.wikipedia.org/wiki/Special:Diff/'' @ number_to_string diff"
    using format_nonempty [OF assms(1-4) False, of diff] by simp
  moreover have "length ?body + 24 \<le> 280"
    using assms(5) False by simp
  ultimately show ?thesis by blast
qed

theorem format_within_budget_witness:
  "(\<exists>body. format (Some ''Alice'') ''Hurricane Ida'' (Some 12345) '': unsourced claim'' =
            body @ ''https://en.wikipedia.org/wiki/Special:Diff/'' @ number_to_string (Some 12345)
          \<and> length body + 24 \<le> 280)
   \<and> (\<exists>body. format (Some ''Alice'') ''Hurricane Ida'' (Some 12345) [] =
            body @ ''https://en.wikipedia.org/wiki/Special:Diff/'' @ number_to_string (Some 12345)
          \<and> length body + 24 \<le> 280)"
  using format_within_budget [of "Some ''Alice''" "''Hurricane Ida''" "'': unsourced claim''" "Some 12345"]
    format_within_budget [of "Some ''Alice''" "''Hurricane Ida''" "[]" "Some 12345"]
  by (simp add: to_string_def)

text \<open>
  C4, as the specification has it: with a reason of 300 characters the text has
  exactly 280 characters. It has 256 characters and the link, here 304.
\<close>

theorem format_truncated_counterexample:
  "length (format (Some ''Alice'') ''Hurricane Ida'' (Some 12345) (replicate 300 CHR ''a'')) = 304"
proof -
  have d: "decimal 12345 = ''12345''"
    by simp
  have "format (Some ''Alice'') ''Hurricane Ida'' (Some 12345) (replicate 300 CHR ''a'') =
     ''New revert by '' @ to_string (Some ''Alice'') @ '' on \"'' @ ''Hurricane Ida'' @ ''\": \"'' @
     take (nat (231 - int (length (to_string (Some ''Alice''))) - int (length ''Hurricane Ida'')))
       (replicate 300 CHR ''a'') @
     ''\" https://en.wikipedia.org/wiki/Special:Diff/'' @ number_to_string (Some 12345)"
    by (rule format_nonempty) (simp_all add: to_string_def)
  then show ?thesis
    by (simp add: to_string_def number_to_string_def d del: decimal.simps)
qed

text \<open>
  C4, amended: for a reason of 300 characters, after a user name and a title of at
  most 231 characters together (all without dollar signs and braces, the user
  name and the title without \<^verbatim>\<open>https:\<close>), the text is the template with the
  first \<open>231 - length user - length title\<close> characters of the reason between the
  quotes, the rest of the template and the link as they are. Its length is 256
  and the length of the link: exactly 280 when the link is counted as 24
  characters.
\<close>

theorem format_truncated:
  assumes "CHR ''$'' \<notin> set (to_string u @ t @ stripped)"
    and "CHR ''{'' \<notin> set (to_string u @ t @ stripped)"
    and "\<not> str_includes (to_string u) ''https:''" and "\<not> str_includes t ''https:''"
    and "length (to_string u) + length t \<le> 231"
    and "length stripped = 300"
  shows "format u t diff stripped =
           ''New revert by '' @ to_string u @ '' on \"'' @ t @ ''\": \"'' @
           take (231 - length (to_string u) - length t) stripped @ ''\" '' @
           ''https://en.wikipedia.org/wiki/Special:Diff/'' @ number_to_string diff
     \<and> length (format u t diff stripped) =
           256 + length (''https://en.wikipedia.org/wiki/Special:Diff/'' @ number_to_string diff)"
proof -
  from assms(6) have ne: "stripped \<noteq> []" by auto
  have k: "nat (231 - int (length (to_string u)) - int (length t)) =
      231 - length (to_string u) - length t"
    by simp
  have eq: "format u t diff stripped =
           ''New revert by '' @ to_string u @ '' on \"'' @ t @ ''\": \"'' @
           take (231 - length (to_string u) - length t) stripped @ ''\" '' @
           ''https://en.wikipedia.org/wiki/Special:Diff/'' @ number_to_string diff"
    using format_nonempty [OF assms(1-4) ne, of diff] unfolding k by simp
  have "length (take (231 - length (to_string u) - length t) stripped) =
      231 - length (to_string u) - length t"
    using assms(6) by simp
  with assms(5) have "length (format u t diff stripped) =
      256 + length (''https://en.wikipedia.org/wiki/Special:Diff/'' @ number_to_string diff)"
    unfolding eq by simp
  with eq show ?thesis by blast
qed

theorem format_truncated_witness:
  "format (Some ''Bob'') ''Hurricane Katrina'' (Some 987654321) (replicate 300 CHR ''b'') =
     ''New revert by Bob on \"Hurricane Katrina\": \"'' @ replicate 211 CHR ''b'' @
     ''\" https://en.wikipedia.org/wiki/Special:Diff/987654321''
   \<and> length (format (Some ''Bob'') ''Hurricane Katrina'' (Some 987654321) (replicate 300 CHR ''b''))
     = 308"
proof -
  have d: "decimal 987654321 = ''987654321''"
    by simp
  show ?thesis
    using format_truncated [of "Some ''Bob''" "''Hurricane Katrina''" "replicate 300 CHR ''b''"
        "Some 987654321"]
    by (simp add: to_string_def number_to_string_def d del: decimal.simps)
qed

subsection \<open>What a match leaves\<close>

lemma lit_suffix: "lit ic p s = Some r \<Longrightarrow> suffix r s"
proof (induction ic p s rule: lit.induct)
  case (1 ic s)
  then show ?case by simp
next
  case (2 ic p ps)
  then show ?case by simp
next
  case (3 ic p ps c cs)
  then show ?case by (auto split: if_splits intro: suffix_ConsI)
qed

lemma plus_greedy_suffix: "e \<in> set (plus_greedy ic cl s) \<Longrightarrow> suffix e s"
  by (induction s) (auto split: if_splits intro: suffix_ConsI)

lemma plus_lazy_suffix: "e \<in> set (plus_lazy ic cl s) \<Longrightarrow> suffix e s"
  by (induction s) (auto split: if_splits intro: suffix_ConsI)

lemma matches_suffix: "e \<in> set (matches ic n r s) \<Longrightarrow> suffix e s"
proof (induction r arbitrary: s e)
  case (Lit p)
  then show ?case by (auto split: option.splits dest: lit_suffix [OF sym])
next
  case (Cls cl)
  then show ?case by (auto split: list.splits if_splits intro: suffix_ConsI)
next
  case (Seq a b)
  from Seq.prems obtain s' where "s' \<in> set (matches ic n a s)" "e \<in> set (matches ic n b s')"
    by auto
  with Seq.IH show ?case by (blast intro: suffix_order.trans)
next
  case (Alt a b)
  then show ?case by auto
next
  case (Opt a)
  then show ?case by auto
next
  case (Plus cl)
  then show ?case by (auto dest: plus_greedy_suffix)
next
  case (PlusLazy cl)
  then show ?case by (auto dest: plus_lazy_suffix)
next
  case (Group a)
  then show ?case by auto
next
  case Bol
  then show ?case by (auto split: if_splits)
next
  case Eol
  then show ?case by (auto split: if_splits)
qed

text \<open>
  When a sequence of patterns matches, its later part matches at some later place
  of the input.
\<close>

lemma matches_cat_tail:
  assumes "e \<in> set (matches ic n (cat (as @ bs)) s)"
  shows "\<exists>s'. suffix s' s \<and> e \<in> set (matches ic n (cat bs) s')"
  using assms
proof (induction as arbitrary: s)
  case Nil
  then show ?case by auto
next
  case (Cons a as)
  from Cons.prems obtain s1 where s1: "s1 \<in> set (matches ic n a s)"
      "e \<in> set (matches ic n (cat (as @ bs)) s1)"
    by auto
  from Cons.IH [OF s1(2)] obtain s' where "suffix s' s1" "e \<in> set (matches ic n (cat bs) s')"
    by blast
  moreover from s1(1) have "suffix s1 s" by (rule matches_suffix)
  ultimately show ?case by (blast intro: suffix_order.trans)
qed

lemma suffix_prefix_includes:
  assumes "suffix s' s" and "prefix t s'"
  shows "str_includes s t"
proof -
  from assms(1) obtain xs where "s = xs @ s'" by (auto simp: suffix_def)
  then have "length xs \<le> length s \<and> prefix t (drop (length xs) s)"
    using assms(2) by simp
  then show ?thesis unfolding str_includes_iff by blast
qed

lemma matches_cat_Lit:
  assumes "matches False n (cat (as @ Lit l # bs)) s \<noteq> []"
  shows "str_includes s l"
proof -
  from assms obtain e where "e \<in> set (matches False n (cat (as @ Lit l # bs)) s)"
    by (cases "matches False n (cat (as @ Lit l # bs)) s") auto
  then obtain s' where s': "suffix s' s" "e \<in> set (matches False n (cat (Lit l # bs)) s')"
    using matches_cat_tail by blast
  from s'(2) have "prefix l s'"
    by (auto simp: lit_False split: if_splits simp del: lit.simps)
  with s'(1) show ?thesis by (rule suffix_prefix_includes)
qed

subsection \<open>Searching with an anchored pattern\<close>

lemma search_None_iff:
  "search ic n r s = None \<longleftrightarrow> (\<forall>i\<le>length s. matches ic n r (drop i s) = [])"
proof (induction s)
  case Nil
  show ?case by (simp split: list.splits)
next
  case (Cons c cs)
  have "(\<forall>i\<le>length (c # cs). matches ic n r (drop i (c # cs)) = []) \<longleftrightarrow>
        matches ic n r (c # cs) = [] \<and> (\<forall>i\<le>length cs. matches ic n r (drop i cs) = [])"
  proof
    assume a: "\<forall>i\<le>length (c # cs). matches ic n r (drop i (c # cs)) = []"
    have "matches ic n r (c # cs) = []" using a [rule_format, of 0] by simp
    moreover have "matches ic n r (drop i cs) = []" if "i \<le> length cs" for i
      using a [rule_format, of "Suc i"] that by simp
    ultimately show "matches ic n r (c # cs) = [] \<and> (\<forall>i\<le>length cs. matches ic n r (drop i cs) = [])"
      by blast
  next
    assume a: "matches ic n r (c # cs) = [] \<and> (\<forall>i\<le>length cs. matches ic n r (drop i cs) = [])"
    show "\<forall>i\<le>length (c # cs). matches ic n r (drop i (c # cs)) = []"
    proof (intro allI impI)
      fix i assume "i \<le> length (c # cs)"
      with a show "matches ic n r (drop i (c # cs)) = []"
        by (cases i) auto
    qed
  qed
  with Cons show ?case by (simp split: list.splits)
qed

lemma matches_Bol_later:
  "length s \<noteq> n \<Longrightarrow> matches ic n (cat (Bol # rs)) s = []"
  by simp

lemma search_anchored:
  "search ic (length s) (cat (Bol # rs)) s = None \<longleftrightarrow>
   matches ic (length s) (cat (Bol # rs)) s = []"
proof -
  have "matches ic (length s) (cat (Bol # rs)) (drop i s) = []" if "0 < i" "i \<le> length s" for i
    using that by (intro matches_Bol_later) simp
  then have "(\<forall>i\<le>length s. matches ic (length s) (cat (Bol # rs)) (drop i s) = []) \<longleftrightarrow>
      matches ic (length s) (cat (Bol # rs)) s = []"
    by (metis drop0 gr0I le0)
  then show ?thesis unfolding search_None_iff .
qed

lemma regexp_test_new:
  "fst (regexp_test (new_RegExp r g i) s) \<longleftrightarrow> search i (length s) r s \<noteq> None"
  by (simp add: regexp_test_def regexp_exec_def new_RegExp_def split: option.splits prod.splits)

lemma some_test_iff:
  "fst (some_test sigs s) \<longleftrightarrow> (\<exists>v\<in>set sigs. fst (regexp_test v s))"
proof (induction sigs)
  case Nil
  show ?case by simp
next
  case (Cons v vs)
  obtain b v' where t: "regexp_test v s = (b, v')" by (cases "regexp_test v s")
  obtain b2 vs' where t2: "some_test vs s = (b2, vs')" by (cases "some_test vs s")
  from Cons t t2 show ?case by (cases b) auto
qed

text \<open>No signature matches: each of the four patterns fails at the start.\<close>

lemma signatures_unmatched_iff:
  "\<not> fst (some_test signatures s) \<longleftrightarrow>
     matches False (length s) rollback s = [] \<and> matches False (length s) undo s = []
     \<and> matches False (length s) redwarn s = [] \<and> matches False (length s) twinkle s = []"
proof -
  have "fst (regexp_test (new_RegExp rollback True False) s) \<longleftrightarrow>
      matches False (length s) rollback s \<noteq> []"
    unfolding regexp_test_new rollback_def by (simp only: search_anchored)
  moreover have "fst (regexp_test (new_RegExp undo True False) s) \<longleftrightarrow>
      matches False (length s) undo s \<noteq> []"
    unfolding regexp_test_new undo_def by (simp only: search_anchored)
  moreover have "fst (regexp_test (new_RegExp redwarn True False) s) \<longleftrightarrow>
      matches False (length s) redwarn s \<noteq> []"
    unfolding regexp_test_new redwarn_def by (simp only: search_anchored)
  moreover have "fst (regexp_test (new_RegExp twinkle True False) s) \<longleftrightarrow>
      matches False (length s) twinkle s \<noteq> []"
    unfolding regexp_test_new twinkle_def by (simp only: search_anchored)
  ultimately show ?thesis
    unfolding some_test_iff by (auto simp: signatures_def)
qed

subsection \<open>Stripping twice\<close>

lemma search_None_replace:
  assumes "search ic n r s = None"
  shows "replace_from ic r replacement inp n s = s"
  using assms
proof (induction s)
  case Nil
  then show ?case by (auto intro: replace_from_Nil split: list.splits)
next
  case (Cons c cs)
  from Cons.prems have m: "matches ic n r (c # cs) = []" and "search ic n r cs = None"
    by (auto split: list.splits)
  with Cons.IH show ?case by (simp add: replace_from_miss)
qed

lemma replace_anchored_unmatched:
  assumes "matches False (length s) (cat (Bol # rs)) s = []"
  shows "replace s (new_RegExp (cat (Bol # rs)) True False) replacement = s"
proof -
  from assms have "search False (length s) (cat (Bol # rs)) s = None"
    by (simp only: search_anchored)
  then show ?thesis
    unfolding replace_def new_RegExp_def by (simp add: search_None_replace del: cat.simps)
qed

lemma str_includes_drop:
  assumes "str_includes (drop i s) t"
  shows "str_includes s t"
proof (cases "i \<le> length s")
  case True
  from assms obtain j where j: "j \<le> length (drop i s)" "prefix t (drop j (drop i s))"
    unfolding str_includes_iff by blast
  with True have "j + i \<le> length s \<and> prefix t (drop (j + i) s)" by simp
  then show ?thesis unfolding str_includes_iff by blast
next
  case False
  with assms have "t = []" by simp
  then have "0 \<le> length s \<and> prefix t (drop 0 s)" by simp
  then show ?thesis unfolding str_includes_iff by blast
qed

lemma replace_talk_links_unmatched:
  assumes "\<not> str_includes s ''(talk)''"
  shows "replace s talk_links replacement = s"
proof -
  have "matches False (length s) (cat [Opt (Lit '' ''), Lit ''(talk)'']) (drop i s) = []" for i
  proof (rule ccontr)
    assume "matches False (length s) (cat [Opt (Lit '' ''), Lit ''(talk)'']) (drop i s) \<noteq> []"
    then have "str_includes (drop i s) ''(talk)''"
      using matches_cat_Lit [of "length s" "[Opt (Lit '' '')]" "''(talk)''" "[]" "drop i s"]
      by simp
    with assms show False by (blast dest: str_includes_drop)
  qed
  then have "search False (length s) (cat [Opt (Lit '' ''), Lit ''(talk)'']) s = None"
    unfolding search_None_iff by blast
  then show ?thesis
    unfolding replace_def talk_links_def new_RegExp_def
    by (simp add: search_None_replace del: cat.simps)
qed

lemma strippedSummary_unchanged:
  assumes "\<not> fst (some_test signatures t)" and "\<not> str_includes t ''(talk)''"
  shows "strippedSummary signatures t = t"
proof -
  from assms(1) have m: "matches False (length t) rollback t = []"
      "matches False (length t) undo t = []" "matches False (length t) redwarn t = []"
      "matches False (length t) twinkle t = []"
    unfolding signatures_unmatched_iff by simp_all
  have "replace t (new_RegExp rollback True False) [] = t"
    using m(1) unfolding rollback_def by (rule replace_anchored_unmatched)
  moreover have "replace t (new_RegExp undo True False) [] = t"
    using m(2) unfolding undo_def by (rule replace_anchored_unmatched)
  moreover have "replace t (new_RegExp redwarn True False) [] = t"
    using m(3) unfolding redwarn_def by (rule replace_anchored_unmatched)
  moreover have "replace t (new_RegExp twinkle True False) [] = t"
    using m(4) unfolding twinkle_def by (rule replace_anchored_unmatched)
  moreover have "replace t talk_links [] = t"
    using assms(2) by (rule replace_talk_links_unmatched)
  ultimately show ?thesis
    by (simp add: strippedSummary_def signatures_def new_RegExp_def)
qed

subsection \<open>Summaries in the form of Twinkle\<close>

lemma matches_anchored_prefix:
  "matches False n (cat (Bol # Lit l # rs)) s \<noteq> [] \<Longrightarrow> prefix l s"
  by (auto simp: lit_False split: if_splits simp del: lit.simps)

lemma str_includes_append_right:
  assumes "str_includes s (a @ b)"
  shows "str_includes s b"
proof -
  from assms obtain i where i: "i \<le> length s" "prefix (a @ b) (drop i s)"
    unfolding str_includes_iff by blast
  then obtain r where r: "drop i s = a @ b @ r" by (auto simp: prefix_def)
  then have "drop (length a) (drop i s) = b @ r" by simp
  then have "prefix b (drop (length a + i) s)" by simp
  then have "str_includes (drop (length a + i) s) b"
    unfolding str_includes_iff by (metis drop0 le0)
  then show ?thesis by (rule str_includes_drop)
qed

lemma rollback_needs_tail:
  assumes "matches False n rollback s \<noteq> []"
  shows "str_includes s '' to last version by ''"
proof -
  have "rollback = cat ([Bol, Lit ''Reverted '', Plus Digit, Lit '' edit'', Opt (Lit ''s''),
      Lit '' by '', PlusLazy Dot] @ Lit ('' (talk)'' @ '' to last version by '') #
      [PlusLazy Dot, Lit '' (talk)''])"
    by (simp add: rollback_def)
  with assms have "str_includes s ('' (talk)'' @ '' to last version by '')"
    using matches_cat_Lit by metis
  then show ?thesis by (rule str_includes_append_right)
qed

lemma twinkle_needs_talk:
  assumes "matches False n twinkle s \<noteq> []"
  shows "str_includes s '' talk:'' \<or> suffix '' talk'' s"
proof -
  let ?tail = "[Lit '' '', Group (Lit ''talk''),
      Group (Alt (Seq (Lit '':'') (Opt (Lit '' ''))) Eol)]"
  have tw: "twinkle = cat ([Bol, Lit ''Reverted '', Plus Digit, Lit '' edit'', Opt (Lit ''s''),
      Lit '' by '', Plus Dot] @ ?tail)"
    by (simp add: twinkle_def)
  from assms obtain e where "e \<in> set (matches False n twinkle s)"
    by (cases "matches False n twinkle s") auto
  then obtain s' where s': "suffix s' s" "e \<in> set (matches False n (cat ?tail) s')"
    unfolding tw using matches_cat_tail by blast
  from s'(2) have "s' = '' talk'' \<or> prefix '' talk:'' s'"
    by (auto simp: lit_False prefix_def split: if_splits simp del: lit.simps)
  then show ?thesis
  proof
    assume "s' = '' talk''"
    with s'(1) show ?thesis by simp
  next
    assume "prefix '' talk:'' s'"
    with s'(1) have "str_includes s '' talk:''" by (rule suffix_prefix_includes)
    then show ?thesis by simp
  qed
qed

text \<open>
  C10, as stated: no summary in the form of Twinkle qualifies. The
  Twinkle pattern asks for a space and the letters \<^verbatim>\<open>talk\<close> before a colon or the
  end, and a reason can have them.
\<close>

theorem twinkle_form_counterexample:
  "classify plain_text [''Hurricane Katrina'', ''Hurricane Ida'']
     (example_change ''Reverted 2 edits by Foo (talk): see talk: page'')
   = Inr (Qualifying (Some ''Alice'') ''Hurricane Ida'' (Some 12345) ''page'')"
proof -
  have v: "\<not> fst (regexp_test vandalism ''Reverted 2 edits by Foo (talk): see talk: page'')"
    by (simp add: rx_defs)
  have h: "\<not> str_includes ''Reverted 2 edits by Foo (talk): see talk: page'' ''([[WP:HG|HG]])''"
    by simp
  have m: "fst (some_test signatures ''Reverted 2 edits by Foo (talk): see talk: page'')"
    by (simp add: rx_defs)
  have s: "strippedSummary signatures ''Reverted 2 edits by Foo (talk): see talk: page'' = ''page''"
    by (simp add: rx_defs strippedSummary_def)
  show ?thesis
    using classify_passed [of "example_change ''Reverted 2 edits by Foo (talk): see talk: page''"
      "''Hurricane Ida''" "[''Hurricane Katrina'', ''Hurricane Ida'']"
      "''Reverted 2 edits by Foo (talk): see talk: page''"
      plain_text "''Reverted 2 edits by Foo (talk): see talk: page''"] v h m s
    by (simp add: example_change_def plain_text_def)
qed

text \<open>
  C10, amended: an event with a comment whose rendered text has the form
  \<^verbatim>\<open>Reverted N edits by USER (talk): reason\<close>, without \<^verbatim>\<open> to last version by \<close>
  in it, without \<^verbatim>\<open> talk:\<close> in it and not ending in \<^verbatim>\<open> talk\<close>, is classified
  \<open>NotQualifying\<close>: no signature matches it.
\<close>

theorem twinkle_form_not_qualifying:
  assumes "summary = ''Reverted '' @ ds @ '' edit'' @ pl @ '' by '' @ usr @ '' (talk): '' @ rsn"
    and "\<not> str_includes summary '' to last version by ''"
    and "\<not> str_includes summary '' talk:''" and "\<not> suffix '' talk'' summary"
    and "comment ev = Some c" and "root_text (parsedcomment ev) = Inr summary"
  shows "classify root_text this_pages ev = Inr NotQualifying"
proof -
  have "matches False (length summary) rollback summary = []"
    using assms(2) rollback_needs_tail by blast
  moreover have "matches False (length summary) undo summary = []"
  proof (rule ccontr)
    assume "matches False (length summary) undo summary \<noteq> []"
    then have "prefix ''Undid revision '' summary"
      unfolding undo_def by (rule matches_anchored_prefix)
    with assms(1) show False by simp
  qed
  moreover have "matches False (length summary) redwarn summary = []"
  proof (rule ccontr)
    assume "matches False (length summary) redwarn summary \<noteq> []"
    then have "prefix ''Reverting edit(s) by '' summary"
      unfolding redwarn_def by (rule matches_anchored_prefix)
    with assms(1) show False by simp
  qed
  moreover have "matches False (length summary) twinkle summary = []"
    using assms(3,4) twinkle_needs_talk by blast
  ultimately have "\<not> fst (some_test signatures summary)"
    unfolding signatures_unmatched_iff by simp
  then obtain sigs where "some_test signatures summary = (False, sigs)"
    by (cases "some_test signatures summary") auto
  with assms(5,6) show ?thesis
    by (simp add: classify_def)
qed

theorem twinkle_form_not_qualifying_witness:
  "classify plain_text (pages example_bot)
     (example_change ''Reverted 2 edits by Foo (talk): unsourced'') = Inr NotQualifying"
  using twinkle_form_not_qualifying [of "''Reverted 2 edits by Foo (talk): unsourced''"
      "''2''" "''s''" "''Foo''" "''unsourced''"
      "example_change ''Reverted 2 edits by Foo (talk): unsourced''"
      "''Reverted 2 edits by Foo (talk): unsourced''" plain_text "pages example_bot"]
  by (simp add: example_change_def plain_text_def suffix_to_prefix)

subsection \<open>Stripping twice, after an Undo or a Rollback signature\<close>






















subsection \<open>No state from one event to the next\<close>

lemma upt_block: "[n..<n + Suc k] = n # [Suc n..<Suc n + k]"
  by (subst upt_rec) simp

lemma alloc_all_eq:
  "alloc_all h rxs = ([length h..<length h + length rxs], h @ rxs)"
proof (induction rxs arbitrary: h)
  case Nil
  show ?case by simp
next
  case (Cons rx rxs)
  have "[length h..<length h + length (rx # rxs)] =
      length h # [Suc (length h)..<Suc (length h) + length rxs]"
    using upt_block [of "length h" "length rxs"] by simp
  with Cons [of "h @ [rx]"] show ?case by (simp add: alloc_def)
qed

lemma test_at_new:
  "test_at (h @ rx # rest) (length h) s =
     (fst (regexp_test rx s), h @ snd (regexp_test rx s) # rest)"
  by (simp add: test_at_def split: prod.splits)

lemma replace_at_new:
  "replace_at (h @ [rx]) s (length h) replacement =
     (replace s rx replacement, h @ [rx\<lparr>lastIndex := 0\<rparr>])"
  by (simp add: replace_at_def)

lemma some_at_new:
  "some_at (h @ rxs) [length h..<length h + length rxs] s =
     (fst (some_test rxs s), h @ snd (some_test rxs s))"
proof (induction rxs arbitrary: h)
  case Nil
  show ?case by simp
next
  case (Cons v vs)
  obtain b v' where t: "regexp_test v s = (b, v')" by (cases "regexp_test v s")
  obtain b2 vs' where t2: "some_test vs s = (b2, vs')" by (cases "some_test vs s")
  have up: "[length h..<length h + length (v # vs)] =
      length h # [length (h @ [v'])..<length (h @ [v']) + length vs]"
    using upt_block [of "length h" "length vs"] by simp
  have ta: "test_at (h @ v # vs) (length h) s = (b, (h @ [v']) @ vs)"
    using t by (simp add: test_at_new)
  show ?case
  proof (cases b)
    case True
    with t ta show ?thesis unfolding up by simp
  next
    case False
    with t t2 ta Cons [of "h @ [v']"] show ?thesis unfolding up by simp
  qed
qed

lemma replace_literal_eq:
  "replace_literal h s rx replacement = (replace s rx replacement, h @ [rx\<lparr>lastIndex := 0\<rparr>])"
  by (simp add: replace_literal_def alloc_def replace_at_new)

lemma strip_at_eq:
  assumes "list_all2 (\<lambda>a sig. a < length h \<and> h ! a = sig) as sigs"
  shows "fst (strip_at h as s) =
           foldl (\<lambda>s sig. replace s (new_RegExp (source sig) (global sig) (ignoreCase sig)) []) s sigs
         \<and> (\<exists>ext. snd (strip_at h as s) = h @ ext)"
  using assms
proof (induction as arbitrary: h s sigs)
  case Nil
  then show ?case by simp
next
  case (Cons a as)
  from Cons.prems obtain sig sigs' where sigs: "sigs = sig # sigs'"
      and a: "a < length h" "h ! a = sig"
      and rest: "list_all2 (\<lambda>a sig. a < length h \<and> h ! a = sig) as sigs'"
    by (auto simp: list_all2_Cons1)
  let ?rx = "new_RegExp (source sig) (global sig) (ignoreCase sig)"
  let ?h = "h @ [?rx\<lparr>lastIndex := 0\<rparr>]"
  have step: "strip_at h (a # as) s = strip_at ?h as (replace s ?rx [])"
    using a by (simp add: alloc_def replace_at_new)
  have "list_all2 (\<lambda>a sig. a < length ?h \<and> ?h ! a = sig) as sigs'"
    using rest by (rule list_all2_mono) (auto simp: nth_append)
  from Cons.IH [OF this, of "replace s ?rx []"]
  obtain ext where f: "fst (strip_at ?h as (replace s ?rx [])) =
        foldl (\<lambda>s sig. replace s (new_RegExp (source sig) (global sig) (ignoreCase sig)) [])
          (replace s ?rx []) sigs'"
      and e: "snd (strip_at ?h as (replace s ?rx [])) = ?h @ ext"
    by blast
  from f e show ?case unfolding step sigs by simp
qed

lemma new_block:
  "list_all2 (\<lambda>a x. a < length (h @ xs) \<and> (h @ xs) ! a = x) [length h..<length h + length xs] xs"
  by (simp add: list_all2_conv_all_nth)

text \<open>The handler with the store against the handler without it, along its tests.\<close>

lemma cl_a:
  assumes "wiki ev \<noteq> Some ''enwiki'' \<or> type ev \<noteq> Some ''edit''
    \<or> \<not> pages_includes this_pages (title ev)"
  shows "classify_at root_text this_pages h ev = (classify root_text this_pages ev, h)"
  using assms by (auto simp: classify_at_def classify_def)

lemma cl_b:
  assumes "\<not> (wiki ev \<noteq> Some ''enwiki'' \<or> type ev \<noteq> Some ''edit''
    \<or> \<not> pages_includes this_pages (title ev))"
    and "comment ev = None"
  shows "classify_at root_text this_pages h ev = (classify root_text this_pages ev, h)"
  using assms by (simp add: classify_at_def classify_def)

lemma cl_c:
  assumes "\<not> (wiki ev \<noteq> Some ''enwiki'' \<or> type ev \<noteq> Some ''edit''
    \<or> \<not> pages_includes this_pages (title ev))"
    and "comment ev = Some c"
    and "str_includes c ''([[WP:HG|HG]])'' \<or> user ev = Some ''ClueBot NG''"
  shows "classify_at root_text this_pages h ev = (classify root_text this_pages ev, h)"
  using assms by (simp add: classify_at_def classify_def)

lemma cl_d:
  assumes g: "wiki ev = Some ''enwiki''" "type ev = Some ''edit''"
      "pages_includes this_pages (title ev)"
    and c: "comment ev = Some c"
    and x: "\<not> str_includes c ''([[WP:HG|HG]])''" "user ev \<noteq> Some ''ClueBot NG''"
    and v: "regexp_test vandalism c = (True, v')"
  shows "classify_at root_text this_pages h ev = (classify root_text this_pages ev, h @ [v'])"
proof -
  have tv: "test_at (h @ [vandalism]) (length h) c = (True, h @ [v'])"
    using test_at_new [of h vandalism "[]" c] v by simp
  show ?thesis
    using g c x v tv by (simp add: classify_at_def classify_def alloc_def)
qed

lemma cl_e:
  assumes g: "wiki ev = Some ''enwiki''" "type ev = Some ''edit''"
      "pages_includes this_pages (title ev)"
    and c: "comment ev = Some c"
    and x: "\<not> str_includes c ''([[WP:HG|HG]])''" "user ev \<noteq> Some ''ClueBot NG''"
    and v: "regexp_test vandalism c = (False, v')"
    and r: "root_text (parsedcomment ev) = Inl e"
  shows "classify_at root_text this_pages h ev = (classify root_text this_pages ev, h @ [v'])"
proof -
  have tv: "test_at (h @ [vandalism]) (length h) c = (False, h @ [v'])"
    using test_at_new [of h vandalism "[]" c] v by simp
  show ?thesis
    using g c x v tv r by (simp add: classify_at_def classify_def alloc_def)
qed

lemma cl_f:
  assumes g: "wiki ev = Some ''enwiki''" "type ev = Some ''edit''"
      "pages_includes this_pages (title ev)"
    and c: "comment ev = Some c"
    and x: "\<not> str_includes c ''([[WP:HG|HG]])''" "user ev \<noteq> Some ''ClueBot NG''"
    and v: "regexp_test vandalism c = (False, v')"
    and r: "root_text (parsedcomment ev) = Inr summary"
    and st: "some_test signatures summary = (False, sigs)"
  shows "classify_at root_text this_pages h ev =
    (classify root_text this_pages ev, (h @ [v']) @ sigs)"
proof -
  have tv: "test_at (h @ [vandalism]) (length h) c = (False, h @ [v'])"
    using test_at_new [of h vandalism "[]" c] v by simp
  let ?h2 = "h @ [v']"
  have al: "alloc_all ?h2 signatures =
      ([length ?h2..<length ?h2 + length signatures], ?h2 @ signatures)"
    by (rule alloc_all_eq)
  have sa: "some_at (?h2 @ signatures) [length ?h2..<length ?h2 + length signatures] summary =
      (False, ?h2 @ sigs)"
    using some_at_new [of ?h2 signatures summary] st by simp
  show ?thesis
    using g c x v tv r st al sa by (simp add: classify_at_def classify_def alloc_def)
qed

lemma cl_g:
  assumes g: "wiki ev = Some ''enwiki''" "type ev = Some ''edit''"
      "pages_includes this_pages (title ev)"
    and c: "comment ev = Some c"
    and x: "\<not> str_includes c ''([[WP:HG|HG]])''" "user ev \<noteq> Some ''ClueBot NG''"
    and v: "regexp_test vandalism c = (False, v')"
    and r: "root_text (parsedcomment ev) = Inr summary"
    and st: "some_test signatures summary = (True, sigs)"
  shows "\<exists>ext. classify_at root_text this_pages h ev =
    (classify root_text this_pages ev, h @ ext)"
proof -
  have tv: "test_at (h @ [vandalism]) (length h) c = (False, h @ [v'])"
    using test_at_new [of h vandalism "[]" c] v by simp
  define h2 where "h2 = h @ [v']"
  define as where "as = [length h2..<length h2 + length signatures]"
  have al: "alloc_all h2 signatures = (as, h2 @ signatures)"
    unfolding as_def by (rule alloc_all_eq)
  have sa: "some_at (h2 @ signatures) as summary = (True, h2 @ sigs)"
    unfolding as_def using some_at_new [of h2 signatures summary] st by simp
  have "length (map (\<lambda>r. (source r, global r, ignoreCase r)) sigs) =
      length (map (\<lambda>r. (source r, global r, ignoreCase r)) signatures)"
    using some_test_fields [of signatures summary] st by simp
  then have len: "length sigs = length signatures" by simp
  have blk: "list_all2 (\<lambda>a x. a < length (h2 @ sigs) \<and> (h2 @ sigs) ! a = x) as sigs"
    unfolding as_def len [symmetric] by (rule new_block)
  obtain s1 h5 where sp: "strip_at (h2 @ sigs) as summary = (s1, h5)"
    by (cases "strip_at (h2 @ sigs) as summary")
  have s1: "s1 = foldl (\<lambda>s sig. replace s
      (new_RegExp (source sig) (global sig) (ignoreCase sig)) []) summary sigs"
    using strip_at_eq [OF blk, of summary] sp by simp
  obtain ext where h5: "h5 = (h2 @ sigs) @ ext"
    using strip_at_eq [OF blk, of summary] sp by auto
  have tl: "replace_at (h5 @ [talk_links]) s1 (length h5) [] =
      (strippedSummary sigs summary, h5 @ [talk_links\<lparr>lastIndex := 0\<rparr>])"
    unfolding replace_at_new s1 by (simp add: strippedSummary_def)
  have "classify_at root_text this_pages h ev =
      (classify root_text this_pages ev, h5 @ [talk_links\<lparr>lastIndex := 0\<rparr>])"
  proof (cases "revision ev")
    case None
    with g c x v r st show ?thesis
      unfolding classify_at_def classify_def
      by (simp add: alloc_def tv h2_def [symmetric] al sa sp tl)
  next
    case (Some rv)
    with g c x v r st show ?thesis
      unfolding classify_at_def classify_def
      by (simp add: alloc_def tv h2_def [symmetric] al sa sp tl)
  qed
  then have "classify_at root_text this_pages h ev =
      (classify root_text this_pages ev,
        h @ ([v'] @ sigs @ ext @ [talk_links\<lparr>lastIndex := 0\<rparr>]))"
    unfolding h5 h2_def by simp
  then show ?thesis by blast
qed

text \<open>
  The handler with its objects in the store computes what the handler without
  the store computes, whatever the store holds when it is called, and it leaves
  the objects that were in the store as they were.
\<close>

lemma classify_at_eq:
  "\<exists>ext. classify_at root_text this_pages h ev = (classify root_text this_pages ev, h @ ext)"
proof (cases "wiki ev \<noteq> Some ''enwiki'' \<or> type ev \<noteq> Some ''edit''
    \<or> \<not> pages_includes this_pages (title ev)")
  case True
  then have "classify_at root_text this_pages h ev = (classify root_text this_pages ev, h @ [])"
    using cl_a by simp
  then show ?thesis by blast
next
  case gates: False
  show ?thesis
  proof (cases "comment ev")
    case None
    with gates have "classify_at root_text this_pages h ev =
        (classify root_text this_pages ev, h @ [])"
      using cl_b by simp
    then show ?thesis by blast
  next
    case (Some c)
    show ?thesis
    proof (cases "str_includes c ''([[WP:HG|HG]])'' \<or> user ev = Some ''ClueBot NG''")
      case True
      with gates Some have "classify_at root_text this_pages h ev =
          (classify root_text this_pages ev, h @ [])"
        using cl_c by simp
      then show ?thesis by blast
    next
      case exempt: False
      obtain b v' where v: "regexp_test vandalism c = (b, v')"
        by (cases "regexp_test vandalism c")
      show ?thesis
      proof (cases b)
        case True
        with gates Some exempt v
        have "classify_at root_text this_pages h ev =
            (classify root_text this_pages ev, h @ [v'])"
          by (intro cl_d) auto
        then show ?thesis by blast
      next
        case nv: False
        show ?thesis
        proof (cases "root_text (parsedcomment ev)")
          case (Inl e)
          with gates Some exempt v nv
          have "classify_at root_text this_pages h ev =
              (classify root_text this_pages ev, h @ [v'])"
            by (intro cl_e) auto
          then show ?thesis by blast
        next
          case (Inr summary)
          obtain m sigs where st: "some_test signatures summary = (m, sigs)"
            by (cases "some_test signatures summary")
          show ?thesis
          proof (cases m)
            case True
            with gates Some exempt v nv Inr st show ?thesis
              by (intro cl_g) auto
          next
            case False
            with gates Some exempt v nv Inr st
            have "classify_at root_text this_pages h ev =
                (classify root_text this_pages ev, h @ ([v'] @ sigs))"
              using cl_f [of ev this_pages c v' root_text summary sigs h] by auto
            then show ?thesis by blast
          qed
        qed
      qed
    qed
  qed
qed

lemma nonSummaryLength_at_eq:
  "fst (nonSummaryLength_at h u t) = nonSummaryLength u t
   \<and> (\<exists>ext. snd (nonSummaryLength_at h u t) = h @ ext)"
  by (simp add: nonSummaryLength_at_def nonSummaryLength_def replace_literal_eq)

lemma format_at_eq:
  "fst (format_at h u t diff stripped) = format u t diff stripped
   \<and> (\<exists>ext. snd (format_at h u t diff stripped) = h @ ext)"
proof -
  obtain n h0 where n: "nonSummaryLength_at h u t = (n, h0)"
    by (cases "nonSummaryLength_at h u t")
  with nonSummaryLength_at_eq [of h u t] obtain ext where "n = nonSummaryLength u t" "h0 = h @ ext"
    by auto
  with n show ?thesis
    by (simp add: format_at_def format_def replace_literal_eq)
qed

lemma recentchange_at_eq:
  "pages (snd (recentchange_at root_text this ev)) = pages this
   \<and> (\<exists>ext. objects (snd (recentchange_at root_text this ev)) = objects this @ ext)
   \<and> (case recentchange root_text \<lparr>pages = pages this, tweets = tweets this\<rparr> ev of
        Inl e \<Rightarrow> fst (recentchange_at root_text this ev) = Some e
          \<and> tweets (snd (recentchange_at root_text this ev)) = tweets this
      | Inr b \<Rightarrow> fst (recentchange_at root_text this ev) = None
          \<and> tweets (snd (recentchange_at root_text this ev)) = tweets b)"
proof -
  obtain ext where c: "classify_at root_text (pages this) (objects this) ev =
      (classify root_text (pages this) ev, objects this @ ext)"
    using classify_at_eq by blast
  show ?thesis
  proof (cases "classify root_text (pages this) ev")
    case (Inl e)
    with c show ?thesis by (simp add: recentchange_at_def recentchange_def)
  next
    case (Inr q)
    show ?thesis
    proof (cases q)
      case NotQualifying
      with c Inr show ?thesis by (simp add: recentchange_at_def recentchange_def)
    next
      case (Qualifying u t d s)
      obtain msg h2 where f: "format_at (objects this @ ext) u t d s = (msg, h2)"
        by (cases "format_at (objects this @ ext) u t d s")
      with format_at_eq [of "objects this @ ext" u t d s]
      obtain ext2 where "msg = format u t d s" "h2 = (objects this @ ext) @ ext2"
        by auto
      with c Inr Qualifying f show ?thesis
        by (simp add: recentchange_at_def recentchange_def)
    qed
  qed
qed

text \<open>
  An object that is tested twice does carry state from the first test to the
  second: the second test starts where the first match ended.
\<close>

lemma shared_object_is_stateful:
  "fst (test_at [new_RegExp undo True False] 0 undo_comment)
   \<and> \<not> fst (test_at (snd (test_at [new_RegExp undo True False] 0 undo_comment)) 0 undo_comment)"
  by (simp add: test_at_def rx_defs undo_comment_def)

text \<open>
  C9. Classification gives the same result whatever the store holds when the
  handler is called: the objects that it tests and replaces with are the ones it
  has just made. So the store that an earlier call has left, with the
  \<^verbatim>\<open>lastIndex\<close> of its objects where the tests have put it, changes nothing:
  classifying the same event again gives the same result, and handling one event
  does not change how a later one is classified. The handler does not write an
  object that was in the store, and it does not write the pages.
\<close>

theorem classification_no_cross_event_state:
  "fst (classify_at root_text this_pages h ev) = fst (classify_at root_text this_pages h' ev)
   \<and> take (length h) (snd (classify_at root_text this_pages h ev)) = h
   \<and> pages (snd (recentchange_at root_text this e1)) = pages this
   \<and> fst (classify_at root_text (pages (snd (recentchange_at root_text this e1)))
          (objects (snd (recentchange_at root_text this e1))) e2)
     = fst (classify_at root_text (pages this) (objects this) e2)"
proof -
  have any: "fst (classify_at root_text ps a e) = classify root_text ps e" for ps a e
    using classify_at_eq [of root_text ps a e] by auto
  obtain ext where "snd (classify_at root_text this_pages h ev) = h @ ext"
    using classify_at_eq [of root_text this_pages h ev] by auto
  then have "take (length h) (snd (classify_at root_text this_pages h ev)) = h"
    by simp
  moreover have "pages (snd (recentchange_at root_text this e1)) = pages this"
    using recentchange_at_eq [of root_text this e1] by simp
  ultimately show ?thesis by (simp add: any)
qed

theorem classification_no_cross_event_state_witness:
  "fst (classify_at plain_text (pages example_world) [] (example_change undo_comment))
     = fst (classify_at plain_text (pages example_world)
         (objects (snd (recentchange_at plain_text example_world (example_change undo_comment))))
         (example_change undo_comment))
   \<and> take (length ([]::store))
       (snd (classify_at plain_text (pages example_world) [] (example_change undo_comment))) = []
   \<and> pages (snd (recentchange_at plain_text example_world (example_change undo_comment)))
     = pages example_world
   \<and> fst (classify_at plain_text
          (pages (snd (recentchange_at plain_text example_world (example_change undo_comment))))
          (objects (snd (recentchange_at plain_text example_world (example_change undo_comment))))
          (example_change rollback_comment))
     = fst (classify_at plain_text (pages example_world) (objects example_world)
          (example_change rollback_comment))
   \<and> fst (classify_at plain_text
          (pages (snd (recentchange_at plain_text example_world (example_change undo_comment))))
          (objects (snd (recentchange_at plain_text example_world (example_change undo_comment))))
          (example_change rollback_comment))
     = Inr (Qualifying (Some ''Alice'') ''Hurricane Ida'' (Some 12345) '': unsourced claim'')"
proof -
  note inst = classification_no_cross_event_state [of plain_text "pages example_world" "[]"
      "example_change undo_comment"
      "objects (snd (recentchange_at plain_text example_world (example_change undo_comment)))"
      example_world "example_change undo_comment" "example_change rollback_comment"]
  have "fst (classify_at plain_text (pages example_world) (objects example_world)
          (example_change rollback_comment))
      = classify plain_text (pages example_world) (example_change rollback_comment)"
    using classify_at_eq [of plain_text "pages example_world" "objects example_world"
        "example_change rollback_comment"] by auto
  also have "\<dots> = Inr (Qualifying (Some ''Alice'') ''Hurricane Ida'' (Some 12345)
      '': unsourced claim'')"
    using classify_rollback [of "example_change rollback_comment" "''Hurricane Ida''"
        "pages example_world" plain_text "\<lparr>new = Some 12345\<rparr>"]
    by (simp add: example_change_def example_world_def plain_text_def)
  finally have v: "fst (classify_at plain_text (pages example_world) (objects example_world)
          (example_change rollback_comment))
     = Inr (Qualifying (Some ''Alice'') ''Hurricane Ida'' (Some 12345) '': unsourced claim'')" .
  show ?thesis using inst v by metis
qed


end
